theory Spec2Isabelle
  imports Main
begin

section \<open>The documentation compiler of tweedjs/docs (build/index.js)\<close>

text \<open>
  The build script turns a tree of Markdown documents into JSON fragments and a manifest.
  This theory embeds the script, in its last version, function by function.  What the script takes from its
  libraries (the Markdown lexer of \<^verbatim>\<open>marked\<close>, the highlighter of \<^verbatim>\<open>prismjs\<close>, the entity decoder,
  the YAML loader, path resolution, JSON serialisation, the stack of an error, the failures
  of the file system) is collected in the record \<open>env\<close>; every theorem holds for every such
  environment.

  Strings are lists of \<open>char\<close>, read as the UTF-16 code units below 256 of a JavaScript
  string; the character classes of the regular expressions are written out on that range.
\<close>

subsection \<open>JavaScript values, errors and strings\<close>

datatype jsval = Undefined | Null | Str string

text \<open>String conversion, as a template literal or \<^verbatim>\<open>RegExp.prototype.test\<close> performs it.\<close>

fun to_string :: "jsval \<Rightarrow> string" where
  "to_string Undefined = ''undefined''"
| "to_string Null = ''null''"
| "to_string (Str s) = s"

text \<open>An exception: its class and its message.\<close>

datatype error = Error string | TypeError string | ENOENT string | YAMLException string

abbreviation NL :: char where
  "NL \<equiv> CHR 0x0A"

text \<open>The class \<^verbatim>\<open>\s\<close>: tab, line feed, vertical tab, form feed, carriage return, space, no-break space.\<close>

definition is_space :: "char \<Rightarrow> bool" where
  "is_space c = (c = CHR 0x09 \<or> c = CHR 0x0A \<or> c = CHR 0x0B \<or> c = CHR 0x0C \<or> c = CHR 0x0D
                 \<or> c = CHR 0x20 \<or> c = CHR 0xA0)"

text \<open>The class \<^verbatim>\<open>\w\<close>: ASCII letters, digits and the underscore.\<close>

definition is_word :: "char \<Rightarrow> bool" where
  "is_word c = (let n = (of_char c :: nat) in
     (48 \<le> n \<and> n \<le> 57) \<or> (65 \<le> n \<and> n \<le> 90) \<or> n = 95 \<or> (97 \<le> n \<and> n \<le> 122))"

text \<open>The line terminators that \<^verbatim>\<open>.\<close> does not match: line feed and carriage return.\<close>

definition is_line_terminator :: "char \<Rightarrow> bool" where
  "is_line_terminator c = (c = CHR 0x0A \<or> c = CHR 0x0D)"

definition is_upper :: "char \<Rightarrow> bool" where
  "is_upper c = (let n = (of_char c :: nat) in
     (65 \<le> n \<and> n \<le> 90) \<or> (192 \<le> n \<and> n \<le> 222 \<and> n \<noteq> 215))"

text \<open>\<^verbatim>\<open>String.prototype.toLowerCase\<close> on the code units below 256.\<close>

definition to_lower :: "char \<Rightarrow> char" where
  "to_lower c = (if is_upper c then char_of ((of_char c :: nat) + 32) else c)"

definition toLowerCase :: "string \<Rightarrow> string" where
  "toLowerCase s = map to_lower s"

definition starts_with :: "string \<Rightarrow> string \<Rightarrow> bool" where
  "starts_with p s = (take (length p) s = p)"

text \<open>\<^verbatim>\<open>/p/.test(s)\<close> for a pattern \<open>p\<close> of literal characters: \<open>p\<close> occurs somewhere in \<open>s\<close>.\<close>

fun contains :: "string \<Rightarrow> string \<Rightarrow> bool" where
  "contains p [] = (p = [])"
| "contains p (c # cs) = (starts_with p (c # cs) \<or> contains p cs)"

text \<open>
  \<^verbatim>\<open>s.replace(p, r)\<close> with a string pattern and a replacement without \<^verbatim>\<open>$\<close>: only the first
  occurrence of \<open>p\<close> is replaced.
\<close>

fun replace_first :: "string \<Rightarrow> string \<Rightarrow> string \<Rightarrow> string" where
  "replace_first p r [] = (if p = [] then r else [])"
| "replace_first p r (c # cs) =
     (if starts_with p (c # cs) then r @ drop (length p) (c # cs)
      else c # replace_first p r cs)"

text \<open>\<^verbatim>\<open>s.split(d)\<close> with a one-character string separator, \<^verbatim>\<open>parts.join(sep)\<close>, \<^verbatim>\<open>s.trim()\<close>.\<close>

fun split_on :: "char \<Rightarrow> string \<Rightarrow> string list" where
  "split_on d [] = [[]]"
| "split_on d (c # cs) =
     (if c = d then [] # split_on d cs
      else (case split_on d cs of [] \<Rightarrow> [[c]] | p # ps \<Rightarrow> (c # p) # ps))"

fun join :: "string \<Rightarrow> string list \<Rightarrow> string" where
  "join sep [] = []"
| "join sep [x] = x"
| "join sep (x # y # ys) = x @ sep @ join sep (y # ys)"

definition trim :: "string \<Rightarrow> string" where
  "trim s = rev (dropWhile is_space (rev (dropWhile is_space s)))"

text \<open>
  \<^verbatim>\<open>s.split(re)\<close> for a regular expression without capture groups and without look-behind.
  The matcher \<open>m\<close> gives, for the text at a position, the length of the match of \<open>re\<close>
  that starts there.  The scan moves on by one character where there is no match and cuts
  where a match is found.  Neither expression of the script matches the empty string; the
  branch for an empty match only makes the function total.
\<close>

function split_re :: "(string \<Rightarrow> nat option) \<Rightarrow> string \<Rightarrow> string \<Rightarrow> string list" where
  "split_re m acc [] = [acc]"
| "split_re m acc (c # cs) =
     (case m (c # cs) of
        None \<Rightarrow> split_re m (acc @ [c]) cs
      | Some n \<Rightarrow> (if n = 0 then split_re m (acc @ [c]) cs
                   else acc # split_re m [] (drop n (c # cs))))"
  by pat_completeness auto
termination
  by (relation "measure (\<lambda>(m, acc, s). length s)") auto

text \<open>The matcher of \<^verbatim>\<open>/\s*---\s*/\<close>: white space, three dashes, white space, all greedy.\<close>

definition match_separator :: "string \<Rightarrow> nat option" where
  "match_separator s =
     (let t = dropWhile is_space s in
      if starts_with ''---'' t
      then Some (length (takeWhile is_space s) + 3 + length (takeWhile is_space (drop 3 t)))
      else None)"

text \<open>The matcher of \<^verbatim>\<open>/:\s*/\<close>: a colon and the white space after it.\<close>

definition match_colon :: "string \<Rightarrow> nat option" where
  "match_colon s =
     (case s of [] \<Rightarrow> None
      | c # t \<Rightarrow> if c = CHR '':'' then Some (1 + length (takeWhile is_space t)) else None)"

text \<open>Array destructuring \<^verbatim>\<open>[a, b] = parts\<close>: a missing element is \<^verbatim>\<open>undefined\<close>.\<close>

definition element :: "string list \<Rightarrow> nat \<Rightarrow> jsval" where
  "element parts i = (if i < length parts then Str (parts ! i) else Undefined)"

subsection \<open>Objects\<close>

text \<open>
  An object with string keys is kept as the list of its own properties, in the order in
  which JavaScript enumerates them: first the keys that are array indices (the decimal
  numerals of the integers below \<open>2\<^sup>3\<^sup>2 - 1\<close>, without a leading zero), in ascending numeric
  order, then the other keys in the order of their creation.
\<close>

definition is_digit :: "char \<Rightarrow> bool" where
  "is_digit c = (let n = (of_char c :: nat) in 48 \<le> n \<and> n \<le> 57)"

definition decimal :: "string \<Rightarrow> nat" where
  "decimal s = foldl (\<lambda>n c. 10 * n + ((of_char c :: nat) - 48)) 0 s"

definition array_index :: "string \<Rightarrow> nat option" where
  "array_index s =
     (if s \<noteq> [] \<and> list_all is_digit s \<and> (s = ''0'' \<or> hd s \<noteq> CHR ''0'')
         \<and> decimal s < 4294967295
      then Some (decimal s) else None)"

text \<open>A new array index \<open>n\<close>, written \<open>k\<close>, goes before the first key that is not a smaller index.\<close>

fun put_index :: "nat \<Rightarrow> string \<Rightarrow> 'a \<Rightarrow> (string \<times> 'a) list \<Rightarrow> (string \<times> 'a) list" where
  "put_index n k v [] = [(k, v)]"
| "put_index n k v ((k', v') # ps) =
     (case array_index k' of
        None \<Rightarrow> (k, v) # (k', v') # ps
      | Some n' \<Rightarrow> if n' < n then (k', v') # put_index n k v ps
                   else (k, v) # (k', v') # ps)"

text \<open>
  The assignment \<^verbatim>\<open>object[k] = v\<close> to a data property: the value of an existing property is
  replaced where it is, a new property takes its place in the order.
\<close>

definition put :: "(string \<times> 'a) list \<Rightarrow> string \<Rightarrow> 'a \<Rightarrow> (string \<times> 'a) list" where
  "put ps k v =
     (if k \<in> fst ` set ps then map (\<lambda>p. if fst p = k then (k, v) else p) ps
      else (case array_index k of
              None \<Rightarrow> ps @ [(k, v)]
            | Some n \<Rightarrow> put_index n k v ps))"

subsection \<open>The libraries\<close>

datatype grammar = Tweed | Bash | Markup

text \<open>
  What \<^verbatim>\<open>marked\<close> finds in a document, in document order: a code block (fenced or indented)
  with its language tag, which it hands to \<^verbatim>\<open>renderer.code\<close>; an inline code span, which it
  hands to \<^verbatim>\<open>renderer.codespan\<close>; and the HTML its own renderer writes for everything else.
  The result of \<^verbatim>\<open>marked\<close> is the concatenation of those pieces.  The tag of a block
  without one is \<^verbatim>\<open>undefined\<close>.
\<close>

datatype token = Html string | Code string jsval | Codespan string

text \<open>
  A loaded YAML document, as far as the script reads it: the four properties it takes from
  the root and the section configuration files.  A property that is absent is \<^verbatim>\<open>undefined\<close>
  (\<open>None\<close> for the two lists).
\<close>

record yaml_doc =
  y_sections :: "string list option"
  y_section :: jsval
  y_description :: jsval
  y_subsections :: "string list option"

text \<open>The values handed to \<^verbatim>\<open>JSON.stringify\<close>.\<close>

datatype json = JVal jsval | JBool bool | JArray "json list" | JObject "(string \<times> json) list"

text \<open>
  The world of the script: the files it can read, the directories it has made and the
  files it has written, in order, and the two streams of the console.
\<close>

record world =
  files :: "string \<rightharpoonup> string"
  made :: "string list"
  written :: "(string \<times> string) list"
  console_log :: "string list"
  console_error :: "string list"

text \<open>
  The environment.  \<open>prism_html\<close> is the highlighter on a text; \<open>type_error\<close> is the message
  of the \<^verbatim>\<open>TypeError\<close> that the engine raises for using the value of the named expression
  where it cannot be used; \<open>mkdirs_error\<close> and \<open>writeFile_error\<close> tell whether the file system
  refuses to make a directory or to write a file, and with which error.
\<close>

record env =
  lexer :: "string \<Rightarrow> token list"
  prism_html :: "string \<Rightarrow> grammar \<Rightarrow> string"
  decode :: "string \<Rightarrow> string"
  yaml_load :: "string \<Rightarrow> error + yaml_doc"
  resolve :: "string \<Rightarrow> string \<Rightarrow> string"
  stringify :: "json \<Rightarrow> string"
  stack :: "error \<Rightarrow> string"
  type_error :: "string \<Rightarrow> jsval \<Rightarrow> string"
  mkdirs_error :: "world \<Rightarrow> string \<Rightarrow> error option"
  writeFile_error :: "world \<Rightarrow> string \<Rightarrow> string \<Rightarrow> error option"
  dirDocs :: string
  dirDist :: string

subsection \<open>highlight, codeBlock, codeSpan\<close>

text \<open>
  \<^verbatim>\<open>prism(code, grammar)\<close>: the highlighter works on a text; handed a missing value, it fails
  on the first property it reads from it.
\<close>

definition prism :: "env \<Rightarrow> jsval \<Rightarrow> grammar \<Rightarrow> error + string" where
  "prism E code g =
     (case code of
        Str s \<Rightarrow> Inr (prism_html E s g)
      | Undefined \<Rightarrow> Inl (TypeError (type_error E ''text'' Undefined))
      | Null \<Rightarrow> Inl (TypeError (type_error E ''text'' Null)))"

text \<open>The prompt of a shell line, \<^verbatim>\<open>/^\$\s*/\<close>, is replaced by an empty span.\<close>

definition shell_line :: "string \<Rightarrow> string" where
  "shell_line line =
     (case line of [] \<Rightarrow> line
      | c # t \<Rightarrow> if c = CHR ''$''
                then ''<span class=\"shell-prompt\"></span>'' @ dropWhile is_space t
                else line)"

definition highlight :: "env \<Rightarrow> jsval \<Rightarrow> jsval \<Rightarrow> error + string" where
  "highlight E code language =
     (if language = Str ''javascript'' \<or> language = Str ''typescript''
         \<or> language = Null \<or> language = Undefined
      then prism E code Tweed
      else if language = Str ''shell''
      then (case prism E code Bash of
              Inl e \<Rightarrow> Inl e
            | Inr s \<Rightarrow> Inr (join [NL] (map shell_line (split_on NL s))))
      else if language = Str ''html''
      then prism E code Markup
      else Inl (Error (''Cannot highlight '' @ to_string language)))"

definition codeBlock :: "env \<Rightarrow> jsval \<Rightarrow> jsval \<Rightarrow> error + string" where
  "codeBlock E code language =
     (case highlight E code language of
        Inl e \<Rightarrow> Inl e
      | Inr h \<Rightarrow> Inr (''<pre><code class=\"lang-'' @ to_string language @ ''\">'' @ h
                     @ ''</code></pre>''))"

definition codeSpan :: "env \<Rightarrow> string \<Rightarrow> error + string" where
  "codeSpan E code =
     (case highlight E (Str (decode E code)) Undefined of
        Inl e \<Rightarrow> Inl e
      | Inr h \<Rightarrow> Inr (''<code>'' @ h @ ''</code>''))"

subsection \<open>compileMarkdown\<close>

record example =
  javascript :: string
  typescript :: string
  fiddle :: bool

text \<open>
  \<^verbatim>\<open>renderer.code\<close>: the function the script installs for code blocks.  It returns the HTML
  for the block and the list \<^verbatim>\<open>examples\<close> after the call.  The two tests on the language tag
  are unanchored regular expressions, so they hold for every tag that contains the word.
\<close>

definition renderer_code ::
  "env \<Rightarrow> string \<Rightarrow> jsval \<Rightarrow> example list \<Rightarrow> error + (string \<times> example list)" where
  "renderer_code E code language examples =
     (if contains ''tweed'' (to_string language)
      then (let parts = split_re match_separator [] code;
                js = element parts 0;
                ts = element parts 1
            in case codeBlock E js (Str ''javascript'') of
                 Inl e \<Rightarrow> Inl e
               | Inr j \<Rightarrow>
                  (case codeBlock E ts (Str ''typescript'') of
                     Inl e \<Rightarrow> Inl e
                   | Inr t \<Rightarrow>
                       Inr (''<example-slot></example-slot>'',
                            examples @ [\<lparr>javascript = j, typescript = t,
                              fiddle = contains ''tweed+fiddle'' (to_string language)\<rparr>])))
      else (case codeBlock E (Str code) language of
              Inl e \<Rightarrow> Inl e
            | Inr h \<Rightarrow> Inr (h, examples)))"

text \<open>
  \<^verbatim>\<open>marked\<close> catches an exception of the renderer, appends a note to its message and throws
  it again.
\<close>

definition marked_note :: string where
  "marked_note = [NL] @ ''Please report this to https://github.com/chjj/marked.''"

fun please_report :: "error \<Rightarrow> error" where
  "please_report (Error m) = Error (m @ marked_note)"
| "please_report (TypeError m) = TypeError (m @ marked_note)"
| "please_report (ENOENT m) = ENOENT (m @ marked_note)"
| "please_report (YAMLException m) = YAMLException (m @ marked_note)"

text \<open>
  \<^verbatim>\<open>marked(source, { renderer })\<close> on the tokens of the source: the pieces are rendered in
  document order and appended to the output; the first exception ends the call and is
  thrown on to the caller, with the note.
\<close>

fun marked :: "env \<Rightarrow> token list \<Rightarrow> string \<Rightarrow> example list \<Rightarrow> error + (string \<times> example list)" where
  "marked E [] out examples = Inr (out, examples)"
| "marked E (Html h # ts) out examples = marked E ts (out @ h) examples"
| "marked E (Code code language # ts) out examples =
     (case renderer_code E code language examples of
        Inl e \<Rightarrow> Inl (please_report e)
      | Inr (h, examples') \<Rightarrow> marked E ts (out @ h) examples')"
| "marked E (Codespan code # ts) out examples =
     (case codeSpan E code of
        Inl e \<Rightarrow> Inl (please_report e)
      | Inr h \<Rightarrow> marked E ts (out @ h) examples)"

record compiled =
  html :: string
  examples :: "example list"

definition compileMarkdown :: "env \<Rightarrow> string \<Rightarrow> error + compiled" where
  "compileMarkdown E source =
     (case marked E (lexer E source) [] [] of
        Inl e \<Rightarrow> Inl e
      | Inr (out, exs) \<Rightarrow>
          Inr \<lparr>html = replace_first ''<a href=\"http'' ''<a target=\"_blank\" href=\"http'' out,
               examples = exs\<rparr>)"

text \<open>The fences of a document that the script treats as dual-language examples.\<close>

fun is_tweed_fence :: "token \<Rightarrow> bool" where
  "is_tweed_fence (Code code language) = contains ''tweed'' (to_string language)"
| "is_tweed_fence (Html h) = False"
| "is_tweed_fence (Codespan code) = False"

fun fence_language :: "token \<Rightarrow> jsval" where
  "fence_language (Code code language) = language"
| "fence_language (Html h) = Undefined"
| "fence_language (Codespan code) = Undefined"

subsection \<open>parse\<close>

text \<open>
  The metadata expression \<^verbatim>\<open>/^(\w+:\s*.+\n)*/\<close>, piece by piece.  Each function returns the
  text left after its match, or \<open>None\<close> where there is no match.  \<open>dot_line\<close> is \<^verbatim>\<open>.+\n\<close>;
  \<open>space_line\<close> is \<^verbatim>\<open>\s*.+\n\<close>, the white space greedy and given back one character at a time
  until the rest matches; \<open>metadata_line\<close> is one round of the group.
\<close>

definition dot_line :: "string \<Rightarrow> string option" where
  "dot_line s =
     (let d = takeWhile (\<lambda>c. \<not> is_line_terminator c) s;
          r = dropWhile (\<lambda>c. \<not> is_line_terminator c) s
      in if d = [] then None
         else (case r of [] \<Rightarrow> None | c # t \<Rightarrow> if c = NL then Some t else None))"

fun space_line :: "string \<Rightarrow> string option" where
  "space_line [] = dot_line []"
| "space_line (c # cs) =
     (if is_space c
      then (case space_line cs of Some r \<Rightarrow> Some r | None \<Rightarrow> dot_line (c # cs))
      else dot_line (c # cs))"

definition metadata_line :: "string \<Rightarrow> string option" where
  "metadata_line s =
     (let k = takeWhile is_word s; r = dropWhile is_word s
      in if k = [] then None
         else (case r of [] \<Rightarrow> None
               | c # t \<Rightarrow> if c = CHR '':'' then space_line t else None))"

text \<open>
  The text the whole expression matches at the start of the contents: as many rounds of
  the group as match one after the other.
\<close>

function metadata_match :: "string \<Rightarrow> string" where
  "metadata_match s =
     (case metadata_line s of
        None \<Rightarrow> []
      | Some r \<Rightarrow> take (length s - length r) s @ metadata_match r)"
  by pat_completeness auto
termination
proof (relation "measure length")
  show "wf (measure length)" by simp
next
  fix s r :: string
  assume line: "metadata_line s = Some r"
  have dot: "length v < length u" if "dot_line u = Some v" for u v
  proof -
    from that obtain c where "dropWhile (\<lambda>c. \<not> is_line_terminator c) u = c # v"
      by (auto simp: dot_line_def Let_def split: if_splits list.splits)
    then have "length (c # v) \<le> length u"
      by (metis length_dropWhile_le)
    then show ?thesis by simp
  qed
  have sp: "length v < Suc (length u)" if "space_line u = Some v" for u v
    using that
  proof (induction u)
    case Nil
    then show ?case using dot [of "[]" v] by simp
  next
    case (Cons c cs)
    then show ?case using dot [of "c # cs" v]
      by (auto split: if_splits option.splits)
  qed
  from line obtain c t where r: "dropWhile is_word s = c # t" "space_line t = Some r"
    by (auto simp: metadata_line_def Let_def split: if_splits list.splits)
  have "length (c # t) \<le> length s"
    using r(1) by (metis length_dropWhile_le)
  with sp [OF r(2)] show "(r, s) \<in> measure length" by simp
qed

declare metadata_match.simps [simp del]

text \<open>
  \<^verbatim>\<open>Object.assign(metadata, { [key]: value })\<close>: the one property of the source object is
  assigned to \<^verbatim>\<open>metadata\<close>.  The key \<^verbatim>\<open>__proto__\<close> names the accessor that every object
  inherits; assigning a string or \<^verbatim>\<open>undefined\<close> to it does nothing, and no property is made.
\<close>

definition assign :: "(string \<times> jsval) list \<Rightarrow> string \<Rightarrow> jsval \<Rightarrow> (string \<times> jsval) list" where
  "assign metadata key v = (if key = ''__proto__'' then metadata else put metadata key v)"

text \<open>
  One metadata line becomes a property: the line is split at every \<^verbatim>\<open>/:\s*/\<close>, the first
  part is the key and the second part the value; further parts are not used.
\<close>

definition header_entry :: "string \<Rightarrow> string \<times> jsval" where
  "header_entry s =
     (let parts = split_re match_colon [] s
      in (toLowerCase (hd parts), element parts 1))"

definition headers_of :: "string \<Rightarrow> (string \<times> jsval) list" where
  "headers_of metadata =
     foldl (\<lambda>metadata (key, v). assign metadata key v) []
       (map header_entry (filter (\<lambda>c. c \<noteq> []) (split_on NL metadata)))"

definition markdown_of :: "string \<Rightarrow> string" where
  "markdown_of contents = drop (length (metadata_match contents)) contents"

record document = compiled +
  headers :: "(string \<times> jsval) list"

subsection \<open>The file system\<close>

text \<open>
  Reading a file that does not exist fails.  Making a directory and writing a file fail
  where the environment says so, and then leave the world as it is; a file that has been
  written is read as written.
\<close>

definition readFile :: "world \<Rightarrow> string \<Rightarrow> error + string" where
  "readFile w path = (case files w path of None \<Rightarrow> Inl (ENOENT path) | Some c \<Rightarrow> Inr c)"

definition writeFile :: "env \<Rightarrow> string \<Rightarrow> string \<Rightarrow> world \<Rightarrow> error + world" where
  "writeFile E path data w =
     (case writeFile_error E w path data of
        Some e \<Rightarrow> Inl e
      | None \<Rightarrow> Inr (w\<lparr>files := (files w)(path \<mapsto> data),
                       written := written w @ [(path, data)]\<rparr>))"

definition mkdirs :: "env \<Rightarrow> string \<Rightarrow> world \<Rightarrow> error + world" where
  "mkdirs E path w =
     (case mkdirs_error E w path of
        Some e \<Rightarrow> Inl e
      | None \<Rightarrow> Inr (w\<lparr>made := made w @ [path]\<rparr>))"

definition parse :: "env \<Rightarrow> world \<Rightarrow> string \<Rightarrow> error + document" where
  "parse E w path =
     (case readFile w path of
        Inl e \<Rightarrow> Inl e
      | Inr contents \<Rightarrow>
          (let metadata = metadata_match contents;
               markdown = drop (length metadata) contents
           in case compileMarkdown E markdown of
                Inl e \<Rightarrow> Inl e
              | Inr c \<Rightarrow> Inr \<lparr>html = html c, examples = examples c,
                             headers = headers_of metadata\<rparr>))"

subsection \<open>main\<close>

record subsection_entry =
  sub_headers :: "(string \<times> jsval) list"
  sub_slug :: string
  sub_url :: string

record index =
  idx_name :: jsval
  idx_slug :: string
  idx_description :: string
  idx_subsections :: "subsection_entry list"

text \<open>The objects the script serialises: \<^verbatim>\<open>{ html, examples }\<close> and \<^verbatim>\<open>manifest\<close>.\<close>

definition example_json :: "example \<Rightarrow> json" where
  "example_json ex =
     JObject [(''javascript'', JVal (Str (javascript ex))),
              (''typescript'', JVal (Str (typescript ex))),
              (''fiddle'', JBool (fiddle ex))]"

definition document_json :: "document \<Rightarrow> json" where
  "document_json d =
     JObject [(''html'', JVal (Str (html d))),
              (''examples'', JArray (map example_json (examples d)))]"

definition subsection_json :: "subsection_entry \<Rightarrow> json" where
  "subsection_json s =
     JObject [(''headers'', JObject (map (\<lambda>(k, v). (k, JVal v)) (sub_headers s))),
              (''slug'', JVal (Str (sub_slug s))),
              (''url'', JVal (Str (sub_url s)))]"

definition index_json :: "index \<Rightarrow> json" where
  "index_json i =
     JObject [(''name'', JVal (idx_name i)),
              (''slug'', JVal (Str (idx_slug i))),
              (''description'', JVal (Str (idx_description i))),
              (''subsections'', JArray (map subsection_json (idx_subsections i)))]"

definition manifest_json :: "index list \<Rightarrow> json" where
  "manifest_json sections = JObject [(''sections'', JArray (map index_json sections))]"

definition url :: "env \<Rightarrow> string \<Rightarrow> string" where
  "url E path = replace_first (dirDist E) ''/docs'' path"

definition srcFile :: "env \<Rightarrow> string \<Rightarrow> string \<Rightarrow> string" where
  "srcFile E section subsection = resolve E (resolve E (dirDocs E) section) (subsection @ ''.md'')"

definition distFile :: "env \<Rightarrow> string \<Rightarrow> string \<Rightarrow> string" where
  "distFile E section subsection = resolve E (resolve E (dirDist E) section) (subsection @ ''.json'')"

definition sectionIndex :: "env \<Rightarrow> string \<Rightarrow> string" where
  "sectionIndex E section = resolve E (resolve E (dirDocs E) section) ''_index.yaml''"

definition manifestFile :: "env \<Rightarrow> string" where
  "manifestFile E = resolve E (dirDist E) ''manifest.json''"

text \<open>
  The inner loop of \<open>main\<close>: one document is parsed, written and entered in the index.
  Every function of the build returns, with its result or its exception, the world it
  leaves.
\<close>

fun subsections_loop ::
  "env \<Rightarrow> string \<Rightarrow> string list \<Rightarrow> subsection_entry list \<Rightarrow> world
     \<Rightarrow> (error + subsection_entry list) \<times> world" where
  "subsections_loop E section [] subs w = (Inr subs, w)"
| "subsections_loop E section (subsection # rest) subs w =
     (case parse E w (srcFile E section subsection) of
        Inl e \<Rightarrow> (Inl e, w)
      | Inr d \<Rightarrow>
         (case writeFile E (distFile E section subsection) (stringify E (document_json d)) w of
            Inl e \<Rightarrow> (Inl e, w)
          | Inr w1 \<Rightarrow>
              subsections_loop E section rest
                (subs @ [\<lparr>sub_headers = headers d, sub_slug = subsection,
                          sub_url = url E (distFile E section subsection)\<rparr>])
                w1))"

text \<open>
  The body of the outer loop.  Reading a property of a missing value, and iterating over
  one, is a \<^verbatim>\<open>TypeError\<close>.
\<close>

definition section_body :: "env \<Rightarrow> string \<Rightarrow> world \<Rightarrow> (error + index) \<times> world" where
  "section_body E section w =
     (case readFile w (sectionIndex E section) of
        Inl e \<Rightarrow> (Inl e, w)
      | Inr cfg \<Rightarrow>
         (case yaml_load E cfg of
            Inl e \<Rightarrow> (Inl e, w)
          | Inr y \<Rightarrow>
             (case y_description y of
                Undefined \<Rightarrow> (Inl (TypeError (type_error E ''description'' Undefined)), w)
              | Null \<Rightarrow> (Inl (TypeError (type_error E ''description'' Null)), w)
              | Str description \<Rightarrow>
                 (case mkdirs E (resolve E (dirDist E) section) w of
                    Inl e \<Rightarrow> (Inl e, w)
                  | Inr w1 \<Rightarrow>
                     (case y_subsections y of
                        None \<Rightarrow> (Inl (TypeError (type_error E ''subsections'' Undefined)), w1)
                      | Some subsections \<Rightarrow>
                         (case subsections_loop E section subsections [] w1 of
                            (Inl e, w2) \<Rightarrow> (Inl e, w2)
                          | (Inr subs, w2) \<Rightarrow>
                              (Inr \<lparr>idx_name = y_section y, idx_slug = section,
                                    idx_description = trim description,
                                    idx_subsections = subs\<rparr>, w2)))))))"

fun sections_loop ::
  "env \<Rightarrow> string list \<Rightarrow> index list \<Rightarrow> world \<Rightarrow> (error + index list) \<times> world" where
  "sections_loop E [] sections w = (Inr sections, w)"
| "sections_loop E (section # rest) sections w =
     (case section_body E section w of
        (Inl e, w') \<Rightarrow> (Inl e, w')
      | (Inr index, w') \<Rightarrow> sections_loop E rest (sections @ [index]) w')"

definition main :: "env \<Rightarrow> world \<Rightarrow> (error + unit) \<times> world" where
  "main E w =
     (case mkdirs E (dirDist E) w of
        Inl e \<Rightarrow> (Inl e, w)
      | Inr w0 \<Rightarrow>
         (case readFile w0 (resolve E (dirDocs E) ''_index.yaml'') of
            Inl e \<Rightarrow> (Inl e, w0)
          | Inr cfg \<Rightarrow>
             (case yaml_load E cfg of
                Inl e \<Rightarrow> (Inl e, w0)
              | Inr y \<Rightarrow>
                 (case y_sections y of
                    None \<Rightarrow> (Inl (TypeError (type_error E ''sections'' Undefined)), w0)
                  | Some sections \<Rightarrow>
                     (case sections_loop E sections [] w0 of
                        (Inl e, w1) \<Rightarrow> (Inl e, w1)
                      | (Inr manifest, w1) \<Rightarrow>
                         (let manifestJSON = stringify E (manifest_json manifest);
                              w2 = w1\<lparr>console_log := console_log w1 @ [manifestJSON]\<rparr>
                          in case writeFile E (manifestFile E) manifestJSON w2 of
                               Inl e \<Rightarrow> (Inl e, w2)
                             | Inr w3 \<Rightarrow> (Inr (), w3)))))))"

text \<open>The top level: \<^verbatim>\<open>main().catch(({ stack }) => console.error(stack))\<close>.\<close>

definition run :: "env \<Rightarrow> world \<Rightarrow> world" where
  "run E w =
     (case main E w of
        (Inl e, w') \<Rightarrow> w'\<lparr>console_error := console_error w' @ [stack E e]\<rparr>
      | (Inr u, w') \<Rightarrow> w')"

subsection \<open>An environment for worked examples\<close>

text \<open>
  The examples below run the script in an environment whose highlighter returns the code
  as it is, whose paths are joined with a slash, whose file system refuses nothing, and
  whose lexer returns a given list of tokens.
\<close>

fun demo_stringify :: "json \<Rightarrow> string" where
  "demo_stringify (JVal v) = ''<'' @ to_string v @ ''>''"
| "demo_stringify (JBool b) = (if b then ''true'' else ''false'')"
| "demo_stringify (JArray xs) = ''['' @ concat (map demo_stringify xs) @ '']''"
| "demo_stringify (JObject ps) =
     ''{'' @ concat (map (\<lambda>p. fst p @ '':'' @ demo_stringify (snd p) @ '';'') ps) @ ''}''"

definition demo_yaml :: "string \<Rightarrow> error + yaml_doc" where
  "demo_yaml source =
     (if source = ''sections: [tour, guide]''
      then Inr \<lparr>y_sections = Some [''tour'', ''guide''], y_section = Undefined,
                y_description = Undefined, y_subsections = None\<rparr>
      else if source = ''section: Tour''
      then Inr \<lparr>y_sections = None, y_section = Str ''Tour'',
                y_description = Str '' A tour '', y_subsections = Some [''welcome'', ''hello'']\<rparr>
      else if source = ''section: Guide''
      then Inr \<lparr>y_sections = None, y_section = Str ''Guide'',
                y_description = Str ''How to'', y_subsections = Some [''install'']\<rparr>
      else Inl (YAMLException source))"

definition demo_stack :: "error \<Rightarrow> string" where
  "demo_stack e =
     (case e of Error m \<Rightarrow> ''Error: '' @ m | TypeError m \<Rightarrow> ''TypeError: '' @ m
      | ENOENT m \<Rightarrow> ''Error: ENOENT: '' @ m | YAMLException m \<Rightarrow> ''YAMLException: '' @ m)"

definition demo_env :: "token list \<Rightarrow> env" where
  "demo_env tokens =
     \<lparr>lexer = (\<lambda>source. tokens), prism_html = (\<lambda>code g. code), decode = (\<lambda>code. code),
      yaml_load = demo_yaml, resolve = (\<lambda>a b. a @ ''/'' @ b),
      stringify = demo_stringify, stack = demo_stack,
      type_error = (\<lambda>name v. name @ '' is '' @ to_string v),
      mkdirs_error = (\<lambda>w path. None), writeFile_error = (\<lambda>w path data. None),
      dirDocs = ''/docs'', dirDist = ''/dist''\<rparr>"

text \<open>
  A site with two sections and three documents.  Its lexer knows the fence of the one
  document that has an example and takes every other text for HTML.
\<close>

definition demo_world :: "(string \<times> string) list \<Rightarrow> world" where
  "demo_world fs = \<lparr>files = map_of fs, made = [], written = [], console_log = [],
                     console_error = []\<rparr>"

definition demo_lexer :: "string \<Rightarrow> token list" where
  "demo_lexer source =
     (if source = ''```tweed+fiddle'' @ [NL] @ ''let a'' @ [NL] @ ''---'' @ [NL] @ ''let a: any''
                    @ [NL] @ ''```''
      then [Code (''let a'' @ [NL] @ ''---'' @ [NL] @ ''let a: any'') (Str ''tweed+fiddle'')]
      else if source = ''```ruby'' @ [NL] @ ''puts 1'' @ [NL] @ ''```''
      then [Code ''puts 1'' (Str ''ruby'')]
      else [Html source])"

definition demo_site_env :: env where
  "demo_site_env = (demo_env [])\<lparr>lexer := demo_lexer\<rparr>"

text \<open>The same environment on a file system that refuses to write.\<close>

definition demo_readonly_env :: env where
  "demo_readonly_env =
     demo_site_env\<lparr>writeFile_error := (\<lambda>w path data. Some (Error (''EACCES: '' @ path)))\<rparr>"

definition demo_site :: world where
  "demo_site = demo_world
     [(''/docs/_index.yaml'', ''sections: [tour, guide]''),
      (''/docs/tour/_index.yaml'', ''section: Tour''),
      (''/docs/tour/welcome.md'', ''Title: Welcome'' @ [NL] @ ''<p>Hi</p>''),
      (''/docs/tour/hello.md'',
       ''Title: Hello World'' @ [NL] @ ''```tweed+fiddle'' @ [NL] @ ''let a'' @ [NL] @ ''---''
         @ [NL] @ ''let a: any'' @ [NL] @ ''```''),
      (''/docs/guide/_index.yaml'', ''section: Guide''),
      (''/docs/guide/install.md'', ''Title: Install'' @ [NL] @ ''<p>npm</p>'')]"

subsection \<open>Notions used to state the properties\<close>

text \<open>
  A line of the form \<^verbatim>\<open>key: value\<close>: a key of word characters, a colon, and after optional
  white space a value that is not empty, all on one line.
\<close>

definition key_value_line :: "string \<Rightarrow> bool" where
  "key_value_line l =
     (let k = takeWhile is_word l; r = dropWhile is_word l
      in k \<noteq> [] \<and>
         (case r of [] \<Rightarrow> False
          | c # t \<Rightarrow> c = CHR '':'' \<and> dropWhile is_space t \<noteq> []
                     \<and> (\<forall>x \<in> set t. \<not> is_line_terminator x)))"



text \<open>
  What a run of the build adds to the list of written files; the entry of the manifest and
  the file written for one document; the files written for one section.
\<close>

definition new_writes :: "world \<Rightarrow> world \<Rightarrow> (string \<times> string) list" where
  "new_writes w w' = drop (length (written w)) (written w')"

definition entry :: "env \<Rightarrow> string \<Rightarrow> string \<Rightarrow> document \<Rightarrow> subsection_entry" where
  "entry E section subsection d =
     \<lparr>sub_headers = headers d, sub_slug = subsection,
      sub_url = url E (distFile E section subsection)\<rparr>"

definition doc_write :: "env \<Rightarrow> string \<Rightarrow> string \<Rightarrow> document \<Rightarrow> string \<times> string" where
  "doc_write E section subsection d =
     (distFile E section subsection, stringify E (document_json d))"

definition section_writes :: "env \<Rightarrow> index \<Rightarrow> document list \<Rightarrow> (string \<times> string) list" where
  "section_writes E idx ds =
     map2 (doc_write E (idx_slug idx)) (map sub_slug (idx_subsections idx)) ds"

text \<open>
  Two file systems agree outside a set of files.  The build reads its inputs while it
  writes its outputs; what it reads is a file system that agrees with the one it started
  in outside the files it has written.
\<close>

definition agrees :: "world \<Rightarrow> world \<Rightarrow> string set \<Rightarrow> bool" where
  "agrees w v W \<longleftrightarrow> (\<forall>p. p \<notin> W \<longrightarrow> files v p = files w p)"

text \<open>
  An index and the documents of its section are built from the files of the world \<open>w\<close>,
  up to the files \<open>W\<close>: each entry of the index is made from its document, each document is
  what \<open>parse\<close> returns for its source file, and the index is what the configuration file
  of the section declares, each file read in a world that agrees with \<open>w\<close> outside \<open>W\<close>.
\<close>

definition section_built :: "env \<Rightarrow> world \<Rightarrow> string set \<Rightarrow> index \<Rightarrow> document list \<Rightarrow> bool" where
  "section_built E w W idx ds \<longleftrightarrow>
     length ds = length (idx_subsections idx)
   \<and> idx_subsections idx
       = map2 (entry E (idx_slug idx)) (map sub_slug (idx_subsections idx)) ds
   \<and> list_all2 (\<lambda>sub d. \<exists>v. agrees w v W \<and> parse E v (srcFile E (idx_slug idx) sub) = Inr d)
       (map sub_slug (idx_subsections idx)) ds
   \<and> (\<exists>v cfg y descr.
          agrees w v W
        \<and> readFile v (sectionIndex E (idx_slug idx)) = Inr cfg
        \<and> yaml_load E cfg = Inr y
        \<and> y_subsections y = Some (map sub_slug (idx_subsections idx))
        \<and> y_description y = Str descr
        \<and> idx_description idx = trim descr
        \<and> idx_name idx = y_section y)"

text \<open>
  The errors raised during the build, step by step.  A step of a document is reading its
  source, compiling its Markdown, or writing its file.  A step of a section is reading or
  loading its configuration file, reading the description, making its directory, reading
  the list of subsections, or a step of one of its documents, reached when the documents
  before it have been built.  A step of the build is making the distribution directory,
  reading or loading the root configuration file, reading the list of sections, a step of
  one of the sections, reached when the sections before it have been built, or writing
  the manifest.
\<close>

inductive document_raises :: "env \<Rightarrow> string \<Rightarrow> string \<Rightarrow> world \<Rightarrow> error \<Rightarrow> bool"
  for E sec sub w where
  source_unreadable:
    "readFile w (srcFile E sec sub) = Inl e
     \<Longrightarrow> document_raises E sec sub w e"
| markdown_fails:
    "readFile w (srcFile E sec sub) = Inr contents
     \<Longrightarrow> compileMarkdown E (markdown_of contents) = Inl e
     \<Longrightarrow> document_raises E sec sub w e"
| document_unwritable:
    "parse E w (srcFile E sec sub) = Inr d
     \<Longrightarrow> writeFile E (distFile E sec sub) (stringify E (document_json d)) w = Inl e
     \<Longrightarrow> document_raises E sec sub w e"

inductive section_raises :: "env \<Rightarrow> string \<Rightarrow> world \<Rightarrow> error \<Rightarrow> bool"
  for E sec w where
  index_unreadable:
    "readFile w (sectionIndex E sec) = Inl e
     \<Longrightarrow> section_raises E sec w e"
| index_malformed:
    "readFile w (sectionIndex E sec) = Inr cfg
     \<Longrightarrow> yaml_load E cfg = Inl e
     \<Longrightarrow> section_raises E sec w e"
| description_missing:
    "readFile w (sectionIndex E sec) = Inr cfg
     \<Longrightarrow> yaml_load E cfg = Inr y
     \<Longrightarrow> y_description y = Undefined \<or> y_description y = Null
     \<Longrightarrow> section_raises E sec w
           (TypeError (type_error E ''description'' (y_description y)))"
| directory_refused:
    "readFile w (sectionIndex E sec) = Inr cfg
     \<Longrightarrow> yaml_load E cfg = Inr y
     \<Longrightarrow> y_description y = Str description
     \<Longrightarrow> mkdirs E (resolve E (dirDist E) sec) w = Inl e
     \<Longrightarrow> section_raises E sec w e"
| subsections_missing:
    "readFile w (sectionIndex E sec) = Inr cfg
     \<Longrightarrow> yaml_load E cfg = Inr y
     \<Longrightarrow> y_description y = Str description
     \<Longrightarrow> mkdirs E (resolve E (dirDist E) sec) w = Inr w1
     \<Longrightarrow> y_subsections y = None
     \<Longrightarrow> section_raises E sec w (TypeError (type_error E ''subsections'' Undefined))"
| document_fails:
    "readFile w (sectionIndex E sec) = Inr cfg
     \<Longrightarrow> yaml_load E cfg = Inr y
     \<Longrightarrow> y_description y = Str description
     \<Longrightarrow> mkdirs E (resolve E (dirDist E) sec) w = Inr w1
     \<Longrightarrow> y_subsections y = Some (built @ sub # rest)
     \<Longrightarrow> subsections_loop E sec built [] w1 = (Inr subs, w2)
     \<Longrightarrow> document_raises E sec sub w2 e
     \<Longrightarrow> section_raises E sec w e"

inductive build_raises :: "env \<Rightarrow> world \<Rightarrow> error \<Rightarrow> bool"
  for E w where
  dist_refused:
    "mkdirs E (dirDist E) w = Inl e
     \<Longrightarrow> build_raises E w e"
| root_unreadable:
    "mkdirs E (dirDist E) w = Inr w0
     \<Longrightarrow> readFile w0 (resolve E (dirDocs E) ''_index.yaml'') = Inl e
     \<Longrightarrow> build_raises E w e"
| root_malformed:
    "mkdirs E (dirDist E) w = Inr w0
     \<Longrightarrow> readFile w0 (resolve E (dirDocs E) ''_index.yaml'') = Inr cfg
     \<Longrightarrow> yaml_load E cfg = Inl e
     \<Longrightarrow> build_raises E w e"
| sections_missing:
    "mkdirs E (dirDist E) w = Inr w0
     \<Longrightarrow> readFile w0 (resolve E (dirDocs E) ''_index.yaml'') = Inr cfg
     \<Longrightarrow> yaml_load E cfg = Inr y
     \<Longrightarrow> y_sections y = None
     \<Longrightarrow> build_raises E w (TypeError (type_error E ''sections'' Undefined))"
| section_fails:
    "mkdirs E (dirDist E) w = Inr w0
     \<Longrightarrow> readFile w0 (resolve E (dirDocs E) ''_index.yaml'') = Inr cfg
     \<Longrightarrow> yaml_load E cfg = Inr y
     \<Longrightarrow> y_sections y = Some (built @ sec # rest)
     \<Longrightarrow> sections_loop E built [] w0 = (Inr idxs, w1)
     \<Longrightarrow> section_raises E sec w1 e
     \<Longrightarrow> build_raises E w e"
| manifest_unwritable:
    "mkdirs E (dirDist E) w = Inr w0
     \<Longrightarrow> readFile w0 (resolve E (dirDocs E) ''_index.yaml'') = Inr cfg
     \<Longrightarrow> yaml_load E cfg = Inr y
     \<Longrightarrow> y_sections y = Some secs
     \<Longrightarrow> sections_loop E secs [] w0 = (Inr idxs, w1)
     \<Longrightarrow> writeFile E (manifestFile E) (stringify E (manifest_json idxs))
           (w1\<lparr>console_log := console_log w1 @ [stringify E (manifest_json idxs)]\<rparr>) = Inl e
     \<Longrightarrow> build_raises E w e"

section \<open>Properties of the Markdown compiler\<close>

subsection \<open>The rendering loop\<close>

text \<open>
  The output and the examples only grow: rendering from any accumulated state is
  rendering from the empty state, appended.
\<close>

lemma renderer_code_acc:
  "renderer_code E code language exs =
     map_sum id (\<lambda>(h, e). (h, exs @ e)) (renderer_code E code language [])"
  by (simp add: renderer_code_def Let_def split: sum.splits)

lemma marked_acc:
  "marked E ts out exs = map_sum id (\<lambda>(h, e). (out @ h, exs @ e)) (marked E ts [] [])"
proof (induction ts arbitrary: out exs)
  case Nil
  then show ?case by simp
next
  case (Cons t ts)
  show ?case
  proof (cases t)
    case (Html h)
    show ?thesis
      using Cons [of "out @ h" exs] Cons [of h "[]"]
      by (cases "marked E ts [] []") (auto simp: Html)
  next
    case (Code code language)
    show ?thesis
    proof (cases "renderer_code E code language []")
      case (Inl e)
      then show ?thesis
        using renderer_code_acc [of E code language exs] by (simp add: Code)
    next
      case (Inr p)
      obtain h e where p: "p = (h, e)" by (cases p)
      have r: "renderer_code E code language exs = Inr (h, exs @ e)"
        using renderer_code_acc [of E code language exs] Inr p by simp
      show ?thesis
        using Cons [of "out @ h" "exs @ e"] Cons [of h e] Inr p r
        by (cases "marked E ts [] []") (auto simp: Code)
    qed
  next
    case (Codespan code)
    show ?thesis
    proof (cases "codeSpan E code")
      case (Inl e)
      then show ?thesis by (simp add: Codespan)
    next
      case (Inr h)
      then show ?thesis
        using Cons [of "out @ h" exs] Cons [of h "[]"]
        by (cases "marked E ts [] []") (auto simp: Codespan)
    qed
  qed
qed

lemma marked_append:
  "marked E (xs @ ys) out exs =
     (case marked E xs out exs of Inl e \<Rightarrow> Inl e | Inr (h, e) \<Rightarrow> marked E ys h e)"
  by (induction E xs out exs rule: marked.induct) (auto split: sum.splits)

lemma renderer_code_tweed:
  assumes "contains ''tweed'' (to_string language)"
      and "renderer_code E code language [] = Inr (h, e)"
  shows "h = ''<example-slot></example-slot>''"
    and "\<exists>j t. e = [\<lparr>javascript = j, typescript = t,
                     fiddle = contains ''tweed+fiddle'' (to_string language)\<rparr>]"
  using assms by (auto simp: renderer_code_def Let_def split: sum.splits)

lemma renderer_code_plain:
  assumes "\<not> contains ''tweed'' (to_string language)"
      and "renderer_code E code language [] = Inr (h, e)"
  shows "e = []" and "codeBlock E (Str code) language = Inr h"
  using assms by (auto simp: renderer_code_def split: sum.splits)

lemma marked_Cons_Code:
  assumes "marked E (Code code language # ts) [] [] = Inr (h, e)"
  shows "\<exists>h1 e1 h2 e2. renderer_code E code language [] = Inr (h1, e1)
           \<and> marked E ts [] [] = Inr (h2, e2) \<and> h = h1 @ h2 \<and> e = e1 @ e2"
proof -
  from assms obtain h1 e1 where r: "renderer_code E code language [] = Inr (h1, e1)"
    and m: "marked E ts h1 e1 = Inr (h, e)"
    by (auto split: sum.splits)
  from m marked_acc [of E ts h1 e1] obtain h2 e2
    where "marked E ts [] [] = Inr (h2, e2)" "h = h1 @ h2" "e = e1 @ e2"
    by (cases "marked E ts [] []") auto
  with r show ?thesis by blast
qed

lemma marked_fiddle:
  "marked E ts [] [] = Inr (h, e) \<Longrightarrow>
     map fiddle e = map (\<lambda>t. contains ''tweed+fiddle'' (to_string (fence_language t)))
                      (filter is_tweed_fence ts)"
proof (induction ts arbitrary: h e)
  case Nil
  then show ?case by simp
next
  case (Cons t ts)
  show ?case
  proof (cases t)
    case (Html x)
    with Cons.prems marked_acc [of E ts x "[]"] obtain h2 where "marked E ts [] [] = Inr (h2, e)"
      by (cases "marked E ts [] []") auto
    with Cons.IH Html show ?thesis by simp
  next
    case (Code code language)
    from Cons.prems have "marked E (Code code language # ts) [] [] = Inr (h, e)"
      by (simp only: Code)
    from marked_Cons_Code [OF this]
    obtain h1 e1 h2 e2 where r: "renderer_code E code language [] = Inr (h1, e1)"
      and m: "marked E ts [] [] = Inr (h2, e2)" and e: "e = e1 @ e2"
      by blast
    show ?thesis
    proof (cases "contains ''tweed'' (to_string language)")
      case True
      with renderer_code_tweed(2) [OF True r] Cons.IH [OF m] e Code show ?thesis by auto
    next
      case False
      with renderer_code_plain(1) [OF False r] Cons.IH [OF m] e Code show ?thesis by auto
    qed
  next
    case (Codespan x)
    with Cons.prems obtain y where "codeSpan E x = Inr y" "marked E ts y [] = Inr (h, e)"
      by (auto split: sum.splits)
    with marked_acc [of E ts y "[]"] obtain h2 where "marked E ts [] [] = Inr (h2, e)"
      by (cases "marked E ts [] []") auto
    with Cons.IH Codespan show ?thesis by simp
  qed
qed

lemma replace_first_at:
  "\<not> contains p (pre @ butlast p) \<Longrightarrow> replace_first p r (pre @ p @ post) = pre @ r @ post"
proof (induction pre)
  case Nil
  show ?case
  proof (cases p)
    case Nil
    then show ?thesis by (cases post) (simp_all add: starts_with_def)
  next
    case (Cons c cs)
    then show ?thesis by (simp add: starts_with_def)
  qed
next
  case (Cons c cs)
  from Cons.prems have p: "p \<noteq> []" by (auto simp: starts_with_def)
  from Cons.prems have a: "\<not> starts_with p (c # cs @ butlast p)"
    and b: "\<not> contains p (cs @ butlast p)" by simp_all
  have "take (length p) (c # cs @ p @ post) = take (length p) (c # cs @ butlast p)"
    using p by (cases p rule: rev_cases) simp_all
  with a have "\<not> starts_with p (c # cs @ p @ post)"
    by (simp add: starts_with_def)
  with Cons.IH [OF b] show ?case by simp
qed

lemma compile_marked:
  "compileMarkdown E source = Inr r \<Longrightarrow>
     \<exists>out. marked E (lexer E source) [] [] = Inr (out, examples r)
       \<and> html r = replace_first ''<a href=\"http'' ''<a target=\"_blank\" href=\"http'' out"
  by (auto simp: compileMarkdown_def split: sum.splits)

lemmas demo_compile = compileMarkdown_def demo_env_def renderer_code_def codeBlock_def
  codeSpan_def highlight_def prism_def match_separator_def element_def starts_with_def
  is_space_def shell_line_def marked_note_def

subsection \<open>The fiddle flag of an example\<close>

text \<open>
  Claim C8.  When a document compiles, its examples are the fences whose tag contains
  \<^verbatim>\<open>tweed\<close>, in document order, and the \<open>fiddle\<close> field of each is true exactly when the tag
  of its fence contains \<^verbatim>\<open>tweed+fiddle\<close>; for the plain tag \<^verbatim>\<open>tweed\<close> it is false.
\<close>

theorem example_fiddle_flag:
  assumes "compileMarkdown E source = Inr r"
  shows "map fiddle (examples r)
           = map (\<lambda>t. contains ''tweed+fiddle'' (to_string (fence_language t)))
               (filter is_tweed_fence (lexer E source))
         \<and> \<not> contains ''tweed+fiddle'' ''tweed''"
proof -
  from compile_marked [OF assms] obtain out
    where "marked E (lexer E source) [] [] = Inr (out, examples r)" by blast
  from marked_fiddle [OF this] show ?thesis
    by (simp add: starts_with_def)
qed

text \<open>A document with a plain example and a fiddle example.\<close>

theorem example_fiddle_flag_witness:
  "map_sum id (\<lambda>r. map fiddle (examples r))
     (compileMarkdown (demo_env [Code ''a---b'' (Str ''tweed''), Html ''<hr>'',
        Code ''c---d'' (Str ''tweed+fiddle'')]) ''doc'')
   = Inr [False, True]"
proof -
  let ?E = "demo_env [Code ''a---b'' (Str ''tweed''), Html ''<hr>'',
       Code ''c---d'' (Str ''tweed+fiddle'')]"
  have c: "compileMarkdown ?E ''doc''
     = Inr \<lparr>html = ''<example-slot></example-slot><hr><example-slot></example-slot>'',
            examples =
              [\<lparr>javascript = ''<pre><code class=\"lang-javascript\">a</code></pre>'',
                typescript = ''<pre><code class=\"lang-typescript\">b</code></pre>'',
                fiddle = False\<rparr>,
               \<lparr>javascript = ''<pre><code class=\"lang-javascript\">c</code></pre>'',
                typescript = ''<pre><code class=\"lang-typescript\">d</code></pre>'',
                fiddle = True\<rparr>]\<rparr>"
    by (simp add: demo_compile)
  from example_fiddle_flag [OF c] c show ?thesis
    by (simp add: demo_env_def starts_with_def)
qed

subsection \<open>Documents without examples\<close>

text \<open>
  Claim C5 does not hold for the marker as a word: the script takes every tag that
  contains \<^verbatim>\<open>tweed\<close> for the marker.  A document whose only fence is tagged \<^verbatim>\<open>tweeds\<close> has no
  fence tagged \<^verbatim>\<open>tweed\<close> or \<^verbatim>\<open>tweed+fiddle\<close>, and compiles to one example.
\<close>

theorem tweeds_fence_counterexample:
  "''tweeds'' \<notin> {''tweed'', ''tweed+fiddle''}
   \<and> map_sum id (\<lambda>r. length (examples r))
        (compileMarkdown (demo_env [Code ''a---b'' (Str ''tweeds'')]) ''doc'') = Inr 1"
  by (simp add: demo_compile)

text \<open>
  Claim C5, for the marker as the script tests it.  A document in which no code block has
  a tag containing \<^verbatim>\<open>tweed\<close> compiles to an \<open>examples\<close> list of length 0.
\<close>

theorem no_tweed_fence_no_examples:
  assumes "compileMarkdown E source = Inr r"
      and "\<forall>t \<in> set (lexer E source). \<not> is_tweed_fence t"
  shows "length (examples r) = 0"
proof -
  from compile_marked [OF assms(1)] obtain out
    where "marked E (lexer E source) [] [] = Inr (out, examples r)" by blast
  from marked_fiddle [OF this] assms(2) have "map fiddle (examples r) = []"
    by (simp add: filter_empty_conv)
  then show ?thesis by simp
qed

text \<open>A document with an inline code span, a shell block and an untagged block.\<close>

theorem no_tweed_fence_no_examples_witness:
  "map_sum id (\<lambda>r. length (examples r))
     (compileMarkdown (demo_env [Html ''<p>Run '', Codespan ''make'', Html ''</p>'',
        Code ''$ make build'' (Str ''shell''), Code ''let x'' Undefined]) ''doc'')
   = Inr 0"
proof -
  let ?E = "demo_env [Html ''<p>Run '', Codespan ''make'', Html ''</p>'',
        Code ''$ make build'' (Str ''shell''), Code ''let x'' Undefined]"
  have c: "compileMarkdown ?E ''doc''
     = Inr \<lparr>html = ''<p>Run <code>make</code></p><pre><code class=\"lang-shell\"><span class=\"shell-prompt\"></span>make build</code></pre><pre><code class=\"lang-undefined\">let x</code></pre>'',
            examples = []\<rparr>"
    by (simp add: demo_compile)
  have n: "\<forall>t \<in> set (lexer ?E ''doc''). \<not> is_tweed_fence t"
    by (simp add: demo_env_def starts_with_def)
  from no_tweed_fence_no_examples [OF c n] c show ?thesis
    by simp
qed

subsection \<open>Unknown language tags\<close>

lemma highlight_unknown:
  assumes "l \<notin> {''javascript'', ''typescript'', ''shell'', ''html''}"
  shows "highlight E code (Str l) = Inl (Error (''Cannot highlight '' @ l))"
  using assms by (simp add: highlight_def)

lemma renderer_code_unknown:
  assumes "\<not> contains ''tweed'' l"
      and "l \<notin> {''javascript'', ''typescript'', ''shell'', ''html''}"
  shows "renderer_code E code (Str l) exs = Inl (Error (''Cannot highlight '' @ l))"
  using assms highlight_unknown [OF assms(2), of E "Str code"]
  by (simp add: renderer_code_def codeBlock_def)

text \<open>
  Claim C4 does not hold for the marker as a word.  The tag \<^verbatim>\<open>xtweedy\<close> is not the marker and
  is none of the recognized tags, and yet its block raises no error: the script takes it for
  an example.
\<close>

theorem xtweedy_fence_counterexample:
  "''xtweedy'' \<notin> {''tweed'', ''tweed+fiddle'', ''javascript'', ''typescript'', ''shell'', ''html''}
   \<and> compileMarkdown (demo_env [Code ''a---b'' (Str ''xtweedy'')]) ''doc''
       = Inr \<lparr>html = ''<example-slot></example-slot>'',
              examples = [\<lparr>javascript = ''<pre><code class=\"lang-javascript\">a</code></pre>'',
                           typescript = ''<pre><code class=\"lang-typescript\">b</code></pre>'',
                           fiddle = False\<rparr>]\<rparr>"
  by (simp add: demo_compile)

text \<open>
  Claim C4, for the marker as the script tests it.  A code block whose tag is a string that
  does not contain \<^verbatim>\<open>tweed\<close> and is none of \<^verbatim>\<open>javascript\<close>, \<^verbatim>\<open>typescript\<close>, \<^verbatim>\<open>shell\<close>, \<^verbatim>\<open>html\<close>
  makes \<open>highlight\<close> throw \<^verbatim>\<open>Cannot highlight <tag>\<close>.  Compiling the document returns no HTML
  but an error; when everything before the block renders, it is the error of \<open>highlight\<close>,
  with the note that \<^verbatim>\<open>marked\<close> appends to the message.
\<close>

theorem unknown_language_raises:
  assumes "lexer E source = pre @ Code code (Str l) # post"
      and "\<not> contains ''tweed'' l"
      and "l \<notin> {''javascript'', ''typescript'', ''shell'', ''html''}"
  shows "highlight E (Str code) (Str l) = Inl (Error (''Cannot highlight '' @ l))
       \<and> (\<exists>e. compileMarkdown E source = Inl e)
       \<and> ((\<exists>a. marked E pre [] [] = Inr a)
            \<longrightarrow> compileMarkdown E source
                  = Inl (Error (''Cannot highlight '' @ l @ [NL]
                           @ ''Please report this to https://github.com/chjj/marked.'')))"
proof -
  let ?err = "Error (''Cannot highlight '' @ l @ [NL]
                           @ ''Please report this to https://github.com/chjj/marked.'')"
  have step: "marked E (Code code (Str l) # post) out exs = Inl ?err" for out exs
    using renderer_code_unknown [OF assms(2,3)] by (simp add: marked_note_def)
  have m: "marked E (lexer E source) [] [] =
             (case marked E pre [] [] of Inl e \<Rightarrow> Inl e | Inr a \<Rightarrow> Inl ?err)"
    unfolding assms(1) marked_append
    by (simp add: step del: marked.simps split: sum.splits prod.splits)
  have "\<exists>e. compileMarkdown E source = Inl e"
    by (cases "marked E pre [] []") (simp_all add: compileMarkdown_def m)
  moreover have "compileMarkdown E source = Inl ?err" if "\<exists>a. marked E pre [] [] = Inr a"
    using that by (auto simp: compileMarkdown_def m)
  ultimately show ?thesis
    using highlight_unknown [OF assms(3)] by blast
qed

text \<open>A document with a block tagged \<^verbatim>\<open>ruby\<close>.\<close>

theorem unknown_language_raises_witness:
  "highlight (demo_env [Html ''<p>'', Code ''puts 1'' (Str ''ruby''), Html ''</p>''])
       (Str ''puts 1'') (Str ''ruby'') = Inl (Error ''Cannot highlight ruby'')
   \<and> compileMarkdown (demo_env [Html ''<p>'', Code ''puts 1'' (Str ''ruby''), Html ''</p>'']) ''doc''
       = Inl (Error (''Cannot highlight ruby'' @ [NL]
                @ ''Please report this to https://github.com/chjj/marked.''))"
proof -
  let ?E = "demo_env [Html ''<p>'', Code ''puts 1'' (Str ''ruby''), Html ''</p>'']"
  have l: "lexer ?E ''doc'' = [Html ''<p>''] @ Code ''puts 1'' (Str ''ruby'') # [Html ''</p>'']"
    by (simp add: demo_env_def)
  have t: "\<not> contains ''tweed'' ''ruby''"
    by (simp add: starts_with_def)
  have k: "''ruby'' \<notin> {''javascript'', ''typescript'', ''shell'', ''html''}"
    by simp
  have p: "\<exists>a. marked ?E [Html ''<p>''] [] [] = Inr a"
    by simp
  from unknown_language_raises [OF l t k] p show ?thesis
    by simp
qed

subsection \<open>Dual-language examples\<close>

text \<open>
  Claim C1 does not hold for every body.  The body \<^verbatim>\<open>a---b---c\<close> is split into three parts,
  not two, and the third is dropped; the body \<^verbatim>\<open>a\<close> has no separator, and compiling its
  document pushes no example and returns no HTML: the highlighter is handed a missing
  second part and the document fails.  It fails as a whole: a well-formed block beside
  such a block is not rendered either.
\<close>

theorem tweed_fence_parts_counterexample:
  "split_re match_separator [] ''a---b---c'' = [''a'', ''b'', ''c'']
   \<and> compileMarkdown (demo_env [Code ''a---b---c'' (Str ''tweed'')]) ''doc''
       = Inr \<lparr>html = ''<example-slot></example-slot>'',
              examples = [\<lparr>javascript = ''<pre><code class=\"lang-javascript\">a</code></pre>'',
                           typescript = ''<pre><code class=\"lang-typescript\">b</code></pre>'',
                           fiddle = False\<rparr>]\<rparr>
   \<and> split_re match_separator [] ''a'' = [''a'']
   \<and> compileMarkdown (demo_env [Code ''a'' (Str ''tweed'')]) ''doc''
       = Inl (TypeError (''text is undefined'' @ [NL]
                @ ''Please report this to https://github.com/chjj/marked.''))
   \<and> compileMarkdown (demo_env [Code ''a---b'' (Str ''tweed''), Code ''c'' (Str ''tweed'')]) ''doc''
       = Inl (TypeError (''text is undefined'' @ [NL]
                @ ''Please report this to https://github.com/chjj/marked.''))"
  by (simp add: demo_compile)

text \<open>
  Claim C1, for a body with a separator, in a document whose other blocks render.  A code
  block whose tag is the marker (the script tests that the tag contains \<^verbatim>\<open>tweed\<close>) and
  whose body has at least two parts is rendered as one example: the first part highlighted as the \<^verbatim>\<open>javascript\<close> variant, the second part
  as the \<^verbatim>\<open>typescript\<close> variant, pushed between the examples of the blocks before and after
  it; further parts are not used.  The HTML of the document is the HTML of what precedes
  the block, the placeholder \<^verbatim>\<open><example-slot></example-slot>\<close>, and the HTML of what
  follows: nothing of the body of the block enters it.
\<close>

theorem tweed_fence_compiled:
  assumes "lexer E source = pre @ Code code language # post"
      and "contains ''tweed'' (to_string language)"
      and "split_re match_separator [] code = js # ts # others"
      and "marked E pre [] [] = Inr (a, ea)"
      and "marked E post [] [] = Inr (b, eb)"
  shows "compileMarkdown E source
           = Inr \<lparr>html = replace_first ''<a href=\"http'' ''<a target=\"_blank\" href=\"http''
                           (a @ ''<example-slot></example-slot>'' @ b),
                  examples = ea @
                    [\<lparr>javascript = ''<pre><code class=\"lang-javascript\">''
                                      @ prism_html E js Tweed @ ''</code></pre>'',
                      typescript = ''<pre><code class=\"lang-typescript\">''
                                      @ prism_html E ts Tweed @ ''</code></pre>'',
                      fiddle = contains ''tweed+fiddle'' (to_string language)\<rparr>] @ eb\<rparr>"
proof -
  let ?ex = "\<lparr>javascript = ''<pre><code class=\"lang-javascript\">''
                                      @ prism_html E js Tweed @ ''</code></pre>'',
              typescript = ''<pre><code class=\"lang-typescript\">''
                                      @ prism_html E ts Tweed @ ''</code></pre>'',
              fiddle = contains ''tweed+fiddle'' (to_string language)\<rparr>"
  have rc: "renderer_code E code language ea = Inr (''<example-slot></example-slot>'', ea @ [?ex])"
    using assms(2)
    by (simp add: renderer_code_def assms(3) element_def codeBlock_def highlight_def prism_def)
  have "marked E post (a @ ''<example-slot></example-slot>'') (ea @ [?ex])
          = Inr (a @ ''<example-slot></example-slot>'' @ b, ea @ [?ex] @ eb)"
    using marked_acc [of E post "a @ ''<example-slot></example-slot>''" "ea @ [?ex]"] assms(5)
    by simp
  with rc have "marked E (Code code language # post) a ea
          = Inr (a @ ''<example-slot></example-slot>'' @ b, ea @ [?ex] @ eb)"
    by simp
  then have "marked E (lexer E source) [] []
          = Inr (a @ ''<example-slot></example-slot>'' @ b, ea @ [?ex] @ eb)"
    unfolding assms(1) marked_append by (simp add: assms(4) del: marked.simps)
  then show ?thesis
    by (simp add: compileMarkdown_def)
qed

text \<open>A document with one example between two paragraphs.\<close>

theorem tweed_fence_compiled_witness:
  "compileMarkdown (demo_env [Html ''<p>Hi</p>'', Code ''let a --- let a: any'' (Str ''tweed''),
       Html ''<p>Bye</p>'']) ''doc''
   = Inr \<lparr>html = ''<p>Hi</p><example-slot></example-slot><p>Bye</p>'',
          examples = [\<lparr>javascript = ''<pre><code class=\"lang-javascript\">let a</code></pre>'',
                       typescript = ''<pre><code class=\"lang-typescript\">let a: any</code></pre>'',
                       fiddle = False\<rparr>]\<rparr>"
proof -
  let ?E = "demo_env [Html ''<p>Hi</p>'', Code ''let a --- let a: any'' (Str ''tweed''),
       Html ''<p>Bye</p>'']"
  have s: "split_re match_separator [] ''let a --- let a: any'' = ''let a'' # ''let a: any'' # []"
    by (simp add: match_separator_def starts_with_def is_space_def)
  have m: "marked ?E [Html ''<p>Hi</p>''] [] [] = Inr (''<p>Hi</p>'', [])"
          "marked ?E [Html ''<p>Bye</p>''] [] [] = Inr (''<p>Bye</p>'', [])"
    by simp_all
  have l: "lexer ?E ''doc'' = [Html ''<p>Hi</p>''] @ Code ''let a --- let a: any'' (Str ''tweed'')
             # [Html ''<p>Bye</p>'']"
    by (simp add: demo_env_def)
  have t: "contains ''tweed'' (to_string (Str ''tweed''))"
    by (simp add: starts_with_def)
  from tweed_fence_compiled [OF l t s m] show ?thesis
    by (simp add: demo_env_def starts_with_def)
qed

subsection \<open>External links\<close>

text \<open>
  Claim C9.  When the first occurrence of \<^verbatim>\<open><a href="http\<close> in the output of \<^verbatim>\<open>marked\<close> is
  after \<open>pre\<close>, the HTML of the document is that output with \<^verbatim>\<open>target="_blank"\<close> put into
  this one anchor; all that follows it, later external links included, is unchanged.
\<close>

theorem first_external_link_only:
  assumes "marked E (lexer E source) [] [] = Inr (pre @ ''<a href=\"http'' @ post, exs)"
      and "\<not> contains ''<a href=\"http'' (pre @ butlast ''<a href=\"http'')"
  shows "compileMarkdown E source
           = Inr \<lparr>html = pre @ ''<a target=\"_blank\" href=\"http'' @ post, examples = exs\<rparr>"
  using replace_first_at [OF assms(2), of "''<a target=\"_blank\" href=\"http''" post] assms(1)
  by (simp add: compileMarkdown_def)

text \<open>A paragraph with two external links: only the first one is rewritten.\<close>

theorem first_external_link_only_witness:
  "compileMarkdown (demo_env [Html ''<p><a href=\"http://a\">A</a> <a href=\"http://b\">B</a></p>'']) ''doc''
     = Inr \<lparr>html = ''<p><a target=\"_blank\" href=\"http://a\">A</a> <a href=\"http://b\">B</a></p>'',
            examples = []\<rparr>"
proof -
  let ?E = "demo_env [Html ''<p><a href=\"http://a\">A</a> <a href=\"http://b\">B</a></p>'']"
  have m: "marked ?E (lexer ?E ''doc'') [] []
             = Inr (''<p>'' @ ''<a href=\"http'' @ ''://a\">A</a> <a href=\"http://b\">B</a></p>'', [])"
    by (simp add: demo_env_def)
  have f: "\<not> contains ''<a href=\"http'' (''<p>'' @ butlast ''<a href=\"http'')"
    by (simp add: starts_with_def)
  from first_external_link_only [OF m f] show ?thesis
    by simp
qed

section \<open>Properties of the document parser\<close>

lemmas demo_defs = demo_site_env_def demo_site_def demo_env_def demo_world_def demo_lexer_def
  main_def readFile_def mkdirs_def demo_yaml_def section_body_def sectionIndex_def srcFile_def
  distFile_def parse_def compileMarkdown_def writeFile_def Let_def metadata_match.simps
  metadata_line_def dot_line_def is_word_def is_space_def is_line_terminator_def
  starts_with_def manifestFile_def

lemmas demo_headers = headers_of_def header_entry_def match_colon_def element_def
  toLowerCase_def to_lower_def is_upper_def char_of_def bit_Suc_0_iff assign_def put_def
  array_index_def is_digit_def decimal_def

subsection \<open>Objects\<close>







text \<open>Array indices come first, in numeric order, whenever they are assigned.\<close>

lemma put_order_example:
  "put (put (put (put [] ''b'' 1) ''10'' 2) ''a'' 3) ''9'' (4::nat)
     = [(''9'', 4), (''10'', 2), (''b'', 1), (''a'', 3)]
   \<and> put [(''b'', 1), (''a'', 3)] ''b'' (5::nat) = [(''b'', 5), (''a'', 3)]
   \<and> put [(''b'', 1)] ''01'' (2::nat) = [(''b'', 1), (''01'', 2)]"
  by (simp add: put_def array_index_def is_digit_def decimal_def)

subsection \<open>Metadata lines\<close>


















subsection \<open>The metadata block\<close>

text \<open>
  Where every line of the block has a key and, on the same line, a value, and the text
  after the block does not begin another round of the expression, the block is what the
  expression matches and the Markdown body is the text after it.
\<close>

lemma dot_line_value:
  assumes "v \<noteq> []" and "\<forall>c \<in> set v. \<not> is_line_terminator c"
  shows "dot_line (v @ NL # rest) = Some rest"
proof -
  have "takeWhile (\<lambda>c. \<not> is_line_terminator c) (v @ NL # rest) = v"
    using assms(2) by (simp add: takeWhile_tail is_line_terminator_def)
  moreover have "dropWhile (\<lambda>c. \<not> is_line_terminator c) (v @ NL # rest) = NL # rest"
    using assms(2) by (simp add: dropWhile_append3 is_line_terminator_def)
  ultimately show ?thesis
    using assms(1) by (simp add: dot_line_def)
qed

lemma space_line_value:
  assumes "dropWhile is_space t \<noteq> []" and "\<forall>c \<in> set t. \<not> is_line_terminator c"
  shows "space_line (t @ NL # rest) = Some rest"
  using assms
proof (induction t)
  case Nil
  then show ?case by simp
next
  case (Cons c t)
  show ?case
  proof (cases "is_space c")
    case True
    with Cons show ?thesis by simp
  next
    case False
    with Cons.prems dot_line_value [of "c # t" rest] show ?thesis by simp
  qed
qed

lemma metadata_line_key_value:
  assumes "key_value_line l"
  shows "metadata_line (l @ NL # rest) = Some rest"
proof -
  from assms obtain t where k: "takeWhile is_word l \<noteq> []"
    and r: "dropWhile is_word l = CHR '':'' # t"
    and v: "dropWhile is_space t \<noteq> []" and lt: "\<forall>x \<in> set t. \<not> is_line_terminator x"
    by (auto simp: key_value_line_def Let_def split: list.splits)
  have l: "l = takeWhile is_word l @ CHR '':'' # t"
    using r by (metis takeWhile_dropWhile_id)
  have c: "\<not> is_word (CHR '':'')" by (simp add: is_word_def)
  have tw: "\<forall>x \<in> set (takeWhile is_word l). is_word x"
    by (auto dest: set_takeWhileD)
  have "takeWhile is_word (l @ NL # rest) = takeWhile is_word l"
    by (subst l) (simp add: takeWhile_tail c tw)
  moreover have "dropWhile is_word (l @ NL # rest) = CHR '':'' # t @ NL # rest"
    by (subst l) (simp add: dropWhile_append3 c tw)
  ultimately show ?thesis
    using k space_line_value [OF v lt] by (simp add: metadata_line_def)
qed

lemma metadata_match_block:
  assumes "\<forall>l \<in> set ls. key_value_line l" and "metadata_line body = None"
  shows "metadata_match (concat (map (\<lambda>l. l @ [NL]) ls) @ body) = concat (map (\<lambda>l. l @ [NL]) ls)"
  using assms(1)
proof (induction ls)
  case Nil
  with assms(2) show ?case by (simp add: metadata_match.simps)
next
  case (Cons l ls)
  let ?rest = "concat (map (\<lambda>l. l @ [NL]) ls) @ body"
  have "metadata_line (l @ NL # ?rest) = Some ?rest"
    using Cons.prems by (simp add: metadata_line_key_value)
  then have "metadata_match (l @ NL # ?rest) = (l @ [NL]) @ metadata_match ?rest"
    by (subst metadata_match.simps) simp
  with Cons show ?case by simp
qed

lemma markdown_of_block:
  assumes "\<forall>l \<in> set ls. key_value_line l" and "metadata_line body = None"
  shows "markdown_of (concat (map (\<lambda>l. l @ [NL]) ls) @ body) = body"
  by (simp add: markdown_of_def metadata_match_block [OF assms])

text \<open>
  Claim C2 does not hold for every document.  The white space after the colon of a key may
  run over the end of the line: where a key has no value on its line, the expression takes
  the next line that is not blank as the value.  In this document the second line is no
  metadata, and yet it is removed from the Markdown body (and turned into a header of its
  own).
\<close>

theorem empty_value_swallows_body_line:
  "metadata_match (''Title:'' @ [NL] @ ''Welcome to Tweed'' @ [NL] @ ''<p>Hi</p>'')
     = ''Title:'' @ [NL] @ ''Welcome to Tweed'' @ [NL]
   \<and> parse demo_site_env
       (demo_world [(''/docs/tour/welcome.md'',
          ''Title:'' @ [NL] @ ''Welcome to Tweed'' @ [NL] @ ''<p>Hi</p>'')])
       ''/docs/tour/welcome.md''
     = Inr \<lparr>html = ''<p>Hi</p>'', examples = [],
            headers = [(''title'', Str []), (''welcome to tweed'', Undefined)]\<rparr>"
  by (simp add: demo_defs demo_headers)

section \<open>Properties of the build\<close>

subsection \<open>The loops\<close>

text \<open>
  What a successful run of each loop leaves: the entries and indexes it has built, the
  files it has written, in order, and a file system that agrees with the one it started in
  outside the files written.
\<close>

lemma readFile_cong: "files w p = files w0 p \<Longrightarrow> readFile w p = readFile w0 p"
  by (simp add: readFile_def)

lemma parse_cong: "files w p = files w0 p \<Longrightarrow> parse E w p = parse E w0 p"
  by (simp add: parse_def readFile_def)

lemma mkdirs_Inr:
  assumes "mkdirs E p w = Inr w1"
  shows "files w1 = files w" and "written w1 = written w"
    and "console_log w1 = console_log w" and "console_error w1 = console_error w"
  using assms by (auto simp: mkdirs_def split: option.splits)

lemma writeFile_Inr:
  assumes "writeFile E p data w = Inr w1"
  shows "files w1 = (files w)(p \<mapsto> data)" and "written w1 = written w @ [(p, data)]"
    and "made w1 = made w"
    and "console_log w1 = console_log w" and "console_error w1 = console_error w"
  using assms by (auto simp: writeFile_def split: option.splits)

lemma agrees_refl: "agrees w w W"
  by (simp add: agrees_def)

lemma agrees_trans:
  "agrees w w1 W1 \<Longrightarrow> agrees w1 v W2 \<Longrightarrow> W1 \<subseteq> W \<Longrightarrow> W2 \<subseteq> W \<Longrightarrow> agrees w v W"
  unfolding agrees_def
proof (intro allI impI)
  fix p
  assume a: "\<forall>p. p \<notin> W1 \<longrightarrow> files w1 p = files w p"
    and b: "\<forall>p. p \<notin> W2 \<longrightarrow> files v p = files w1 p"
    and s: "W1 \<subseteq> W" "W2 \<subseteq> W" and p: "p \<notin> W"
  from s p have "p \<notin> W1" "p \<notin> W2" by auto
  with a b show "files v p = files w p" by simp
qed

lemma subsections_loop_Inr:
  assumes "subsections_loop E sec subs acc w = (Inr ents, w')"
  shows "\<exists>ds. length ds = length subs
     \<and> ents = acc @ map2 (entry E sec) subs ds
     \<and> written w' = written w @ map2 (doc_write E sec) subs ds
     \<and> made w' = made w \<and> console_log w' = console_log w \<and> console_error w' = console_error w
     \<and> agrees w w' (distFile E sec ` set subs)
     \<and> list_all2 (\<lambda>sub d. \<exists>v. agrees w v (distFile E sec ` set subs)
                       \<and> parse E v (srcFile E sec sub) = Inr d) subs ds"
  using assms
proof (induction subs arbitrary: acc w)
  case Nil
  then show ?case by (simp add: agrees_refl)
next
  case (Cons a rest)
  from Cons.prems obtain d w1 where d: "parse E w (srcFile E sec a) = Inr d"
    and wf: "writeFile E (distFile E sec a) (stringify E (document_json d)) w = Inr w1"
    and loop: "subsections_loop E sec rest (acc @ [entry E sec a d]) w1 = (Inr ents, w')"
    by (auto simp: entry_def split: sum.splits)
  note w1 = writeFile_Inr [OF wf]
  let ?W = "distFile E sec ` set (a # rest)"
  from Cons.IH [OF loop] obtain ds where ds: "length ds = length rest"
    and ents: "ents = (acc @ [entry E sec a d]) @ map2 (entry E sec) rest ds"
    and wr: "written w' = written w1 @ map2 (doc_write E sec) rest ds"
    and same: "made w' = made w1" "console_log w' = console_log w1"
        "console_error w' = console_error w1"
    and fr: "agrees w1 w' (distFile E sec ` set rest)"
    and ps: "list_all2 (\<lambda>sub d. \<exists>v. agrees w1 v (distFile E sec ` set rest)
                       \<and> parse E v (srcFile E sec sub) = Inr d) rest ds"
    by blast
  have f1: "agrees w w1 {distFile E sec a}"
    by (simp add: agrees_def w1(1))
  have up: "agrees w v ?W" if "agrees w1 v (distFile E sec ` set rest)" for v
    using f1 that by (rule agrees_trans) auto
  have ps': "list_all2 (\<lambda>sub d. \<exists>v. agrees w v ?W \<and> parse E v (srcFile E sec sub) = Inr d)
               rest ds"
    using ps
  proof (rule list_all2_mono)
    fix sub d'
    assume "\<exists>v. agrees w1 v (distFile E sec ` set rest)
              \<and> parse E v (srcFile E sec sub) = Inr d'"
    then obtain v where "agrees w1 v (distFile E sec ` set rest)"
      and "parse E v (srcFile E sec sub) = Inr d'" by blast
    with up [OF this(1)] show "\<exists>v. agrees w v ?W \<and> parse E v (srcFile E sec sub) = Inr d'"
      by blast
  qed
  have hd: "\<exists>v. agrees w v ?W \<and> parse E v (srcFile E sec a) = Inr d"
    using d agrees_refl by blast
  have e1: "length (d # ds) = length (a # rest)" using ds by simp
  have e2: "ents = acc @ map2 (entry E sec) (a # rest) (d # ds)"
    using ents by simp
  have e3: "written w' = written w @ map2 (doc_write E sec) (a # rest) (d # ds)"
    using wr by (simp add: w1(2) doc_write_def)
  have e4: "made w' = made w" "console_log w' = console_log w"
    "console_error w' = console_error w"
    using same by (simp_all add: w1)
  have e5: "agrees w w' ?W"
    using fr by (rule up)
  have e6: "list_all2 (\<lambda>sub d. \<exists>v. agrees w v ?W \<and> parse E v (srcFile E sec sub) = Inr d)
              (a # rest) (d # ds)"
    using ps' hd by simp
  show ?case
    by (rule exI [where x = "d # ds"]) (intro conjI e1 e2 e3 e4 e5 e6)
qed

lemma section_built_mono:
  assumes "section_built E w1 W1 idx ds"
      and "W1 \<subseteq> W"
      and "agrees w w1 W"
  shows "section_built E w W idx ds"
proof -
  have up: "agrees w v W" if "agrees w1 v W1" for v
    using assms(3) that by (rule agrees_trans) (simp_all add: assms(2))
  have a: "list_all2 (\<lambda>sub d. \<exists>v. agrees w v W \<and> parse E v (srcFile E (idx_slug idx) sub) = Inr d)
       (map sub_slug (idx_subsections idx)) ds"
  proof (rule list_all2_mono)
    show "list_all2 (\<lambda>sub d. \<exists>v. agrees w1 v W1
                       \<and> parse E v (srcFile E (idx_slug idx) sub) = Inr d)
       (map sub_slug (idx_subsections idx)) ds"
      using assms(1) by (simp add: section_built_def)
  next
    fix sub d
    assume "\<exists>v. agrees w1 v W1 \<and> parse E v (srcFile E (idx_slug idx) sub) = Inr d"
    then obtain v where "agrees w1 v W1"
      and "parse E v (srcFile E (idx_slug idx) sub) = Inr d" by blast
    with up [OF this(1)]
    show "\<exists>v. agrees w v W \<and> parse E v (srcFile E (idx_slug idx) sub) = Inr d"
      by blast
  qed
  from assms(1) obtain v cfg y descr where "agrees w1 v W1"
    and r: "readFile v (sectionIndex E (idx_slug idx)) = Inr cfg" "yaml_load E cfg = Inr y"
      "y_subsections y = Some (map sub_slug (idx_subsections idx))"
      "y_description y = Str descr" "idx_description idx = trim descr"
      "idx_name idx = y_section y"
    unfolding section_built_def by blast
  from up [OF this(1)] r have b: "\<exists>v cfg y descr.
          agrees w v W
        \<and> readFile v (sectionIndex E (idx_slug idx)) = Inr cfg
        \<and> yaml_load E cfg = Inr y
        \<and> y_subsections y = Some (map sub_slug (idx_subsections idx))
        \<and> y_description y = Str descr
        \<and> idx_description idx = trim descr
        \<and> idx_name idx = y_section y"
    by blast
  from assms(1) have "length ds = length (idx_subsections idx)"
    "idx_subsections idx
       = map2 (entry E (idx_slug idx)) (map sub_slug (idx_subsections idx)) ds"
    by (simp_all add: section_built_def)
  with a b show ?thesis
    unfolding section_built_def by (intro conjI)
qed

lemma map2_fst_doc_write:
  "length ds = length subs \<Longrightarrow>
     fst ` set (map2 (doc_write E sec) subs ds) = distFile E sec ` set subs"
proof (induction subs arbitrary: ds)
  case Nil
  then show ?case by simp
next
  case (Cons a subs)
  then obtain d ds' where "ds = d # ds'" by (cases ds) auto
  with Cons show ?case by (auto simp: doc_write_def)
qed

lemma map_sub_slug_entries:
  "length ds = length subs \<Longrightarrow> map sub_slug (map2 (entry E sec) subs ds) = subs"
proof (induction subs arbitrary: ds)
  case Nil
  then show ?case by simp
next
  case (Cons a subs)
  then obtain d ds' where "ds = d # ds'" by (cases ds) auto
  with Cons show ?case by (simp add: entry_def)
qed

lemma section_body_cases:
  assumes "section_body E sec w = (Inr idx, w')"
  shows "\<exists>cfg y descr subs ents w1.
        readFile w (sectionIndex E sec) = Inr cfg
      \<and> yaml_load E cfg = Inr y
      \<and> y_description y = Str descr
      \<and> y_subsections y = Some subs
      \<and> mkdirs E (resolve E (dirDist E) sec) w = Inr w1
      \<and> subsections_loop E sec subs [] w1 = (Inr ents, w')
      \<and> idx = \<lparr>idx_name = y_section y, idx_slug = sec,
                       idx_description = trim descr, idx_subsections = ents\<rparr>"
proof (cases "readFile w (sectionIndex E sec)")
  case (Inl e)
  with assms show ?thesis by (simp add: section_body_def)
next
  case (Inr cfg)
  note rd = this
  show ?thesis
  proof (cases "yaml_load E cfg")
    case (Inl e)
    with assms rd show ?thesis by (simp add: section_body_def)
  next
    case (Inr y)
    note y = this
    show ?thesis
    proof (cases "y_description y")
      case Undefined
      with assms rd y show ?thesis by (simp add: section_body_def)
    next
      case Null
      with assms rd y show ?thesis by (simp add: section_body_def)
    next
      case (Str descr)
      note de = this
      show ?thesis
      proof (cases "mkdirs E (resolve E (dirDist E) sec) w")
        case (Inl e)
        with assms rd y de show ?thesis by (simp add: section_body_def)
      next
        case (Inr w1)
        note mk = this
        show ?thesis
        proof (cases "y_subsections y")
          case None
          with assms rd y de mk show ?thesis by (simp add: section_body_def)
        next
          case (Some subs)
          note su = this
          obtain r w2 where l: "subsections_loop E sec subs [] w1 = (r, w2)"
            by (cases "subsections_loop E sec subs [] w1")
          show ?thesis
          proof (cases r)
            case (Inl e)
            with assms rd y de mk su l show ?thesis by (simp add: section_body_def)
          next
            case (Inr ents)
            with assms rd y de mk su l show ?thesis by (auto simp: section_body_def)
          qed
        qed
      qed
    qed
  qed
qed

lemma section_body_Inr:
  assumes "section_body E sec w = (Inr idx, w')"
  shows "\<exists>ds. idx_slug idx = sec
     \<and> section_built E w (fst ` set (section_writes E idx ds)) idx ds
     \<and> written w' = written w @ section_writes E idx ds
     \<and> console_log w' = console_log w \<and> console_error w' = console_error w
     \<and> agrees w w' (fst ` set (section_writes E idx ds))"
proof -
  from section_body_cases [OF assms] obtain cfg y descr subs ents w1
    where rd: "readFile w (sectionIndex E sec) = Inr cfg"
      and y: "yaml_load E cfg = Inr y"
      and de: "y_description y = Str descr"
      and su: "y_subsections y = Some subs"
      and mk: "mkdirs E (resolve E (dirDist E) sec) w = Inr w1"
      and loop: "subsections_loop E sec subs [] w1 = (Inr ents, w')"
      and idx: "idx = \<lparr>idx_name = y_section y, idx_slug = sec,
                       idx_description = trim descr, idx_subsections = ents\<rparr>"
    by blast
  note w1 = mkdirs_Inr [OF mk]
  let ?D = "distFile E sec ` set subs"
  from subsections_loop_Inr [OF loop] obtain ds where ds: "length ds = length subs"
    and ents: "ents = map2 (entry E sec) subs ds"
    and wr: "written w' = written w1 @ map2 (doc_write E sec) subs ds"
    and same: "console_log w' = console_log w1" "console_error w' = console_error w1"
    and fr: "agrees w1 w' ?D"
    and ps: "list_all2 (\<lambda>sub d. \<exists>v. agrees w1 v ?D
                       \<and> parse E v (srcFile E sec sub) = Inr d) subs ds"
    by auto
  have slugs: "map sub_slug ents = subs"
    unfolding ents using ds by (rule map_sub_slug_entries)
  have len: "length ents = length subs"
    unfolding ents using ds by simp
  have sw: "section_writes E idx ds = map2 (doc_write E sec) subs ds"
    by (simp add: section_writes_def idx slugs)
  have W: "fst ` set (section_writes E idx ds) = ?D"
    unfolding sw using ds by (rule map2_fst_doc_write)
  have m: "agrees w w1 {}"
    by (simp add: agrees_def w1(1))
  have up: "agrees w v ?D" if "agrees w1 v ?D" for v
    using m that by (rule agrees_trans) simp_all
  have sel: "idx_subsections idx = ents" "idx_slug idx = sec"
    by (simp_all add: idx)
  have built: "section_built E w (fst ` set (section_writes E idx ds)) idx ds"
    unfolding section_built_def W sel slugs
  proof (intro conjI)
    show "length ds = length ents"
      using ds len by simp
    show "ents = map2 (entry E sec) subs ds"
      by (rule ents)
    show "list_all2 (\<lambda>sub d. \<exists>v. agrees w v ?D \<and> parse E v (srcFile E sec sub) = Inr d) subs ds"
      using ps
    proof (rule list_all2_mono)
      fix sub d
      assume "\<exists>v. agrees w1 v ?D \<and> parse E v (srcFile E sec sub) = Inr d"
      then obtain v where "agrees w1 v ?D" and "parse E v (srcFile E sec sub) = Inr d"
        by blast
      with up [OF this(1)] show "\<exists>v. agrees w v ?D \<and> parse E v (srcFile E sec sub) = Inr d"
        by blast
    qed
    have "agrees w w ?D" by (rule agrees_refl)
    with rd y de su show "\<exists>v cfg y descr.
          agrees w v ?D
        \<and> readFile v (sectionIndex E sec) = Inr cfg
        \<and> yaml_load E cfg = Inr y
        \<and> y_subsections y = Some subs
        \<and> y_description y = Str descr
        \<and> idx_description idx = trim descr
        \<and> idx_name idx = y_section y"
      unfolding idx by (intro exI [where x = w] exI [where x = cfg] exI [where x = y]
          exI [where x = descr]) simp
  qed
  have c1: "written w' = written w @ section_writes E idx ds"
    using wr by (simp add: sw w1)
  have c2: "console_log w' = console_log w" "console_error w' = console_error w"
    using same by (simp_all add: w1)
  have c3: "agrees w w' (fst ` set (section_writes E idx ds))"
    unfolding W using fr by (rule up)
  show ?thesis
    by (rule exI [where x = ds]) (intro conjI sel(2) built c1 c2 c3)
qed

lemma sections_loop_Inr:
  assumes "sections_loop E secs acc w = (Inr idxs, w')"
  shows "\<exists>news dss. idxs = acc @ news \<and> map idx_slug news = secs
     \<and> length dss = length news
     \<and> written w' = written w @ concat (map2 (section_writes E) news dss)
     \<and> console_log w' = console_log w \<and> console_error w' = console_error w
     \<and> agrees w w' (fst ` set (concat (map2 (section_writes E) news dss)))
     \<and> list_all2 (section_built E w (fst ` set (concat (map2 (section_writes E) news dss))))
           news dss"
  using assms
proof (induction secs arbitrary: acc w)
  case Nil
  then show ?case by (simp add: agrees_refl)
next
  case (Cons sec rest)
  obtain r w1 where b: "section_body E sec w = (r, w1)"
    by (cases "section_body E sec w")
  with Cons.prems obtain idx where r: "r = Inr idx"
    and loop: "sections_loop E rest (acc @ [idx]) w1 = (Inr idxs, w')"
    by (cases r) auto
  from section_body_Inr [OF b [unfolded r]] obtain ds where slug: "idx_slug idx = sec"
    and b1: "section_built E w (fst ` set (section_writes E idx ds)) idx ds"
    and wr1: "written w1 = written w @ section_writes E idx ds"
    and same1: "console_log w1 = console_log w" "console_error w1 = console_error w"
    and fr1: "agrees w w1 (fst ` set (section_writes E idx ds))"
    by blast
  from Cons.IH [OF loop] obtain news dss where idxs: "idxs = (acc @ [idx]) @ news"
    and slugs: "map idx_slug news = rest" and len: "length dss = length news"
    and wr2: "written w' = written w1 @ concat (map2 (section_writes E) news dss)"
    and same2: "console_log w' = console_log w1" "console_error w' = console_error w1"
    and fr2: "agrees w1 w' (fst ` set (concat (map2 (section_writes E) news dss)))"
    and b2: "list_all2 (section_built E w1 (fst ` set (concat (map2 (section_writes E) news dss))))
               news dss"
    by blast
  let ?W1 = "fst ` set (section_writes E idx ds)"
  let ?W2 = "fst ` set (concat (map2 (section_writes E) news dss))"
  let ?W = "fst ` set (concat (map2 (section_writes E) (idx # news) (ds # dss)))"
  have W: "?W = ?W1 \<union> ?W2" by (simp add: image_Un)
  have s1: "?W1 \<subseteq> ?W" and s2: "?W2 \<subseteq> ?W" unfolding W by simp_all
  have a1: "agrees w w1 ?W"
  proof (rule agrees_trans)
    show "agrees w w1 ?W1" by (rule fr1)
    show "agrees w1 w1 {}" by (rule agrees_refl)
    show "?W1 \<subseteq> ?W" by (rule s1)
    show "{} \<subseteq> ?W" by (rule empty_subsetI)
  qed
  have h: "section_built E w ?W idx ds"
    using b1 s1 agrees_refl by (rule section_built_mono)
  have t: "list_all2 (section_built E w ?W) news dss"
    using b2
  proof (rule list_all2_mono)
    fix i d
    assume "section_built E w1 ?W2 i d"
    then show "section_built E w ?W i d"
      using s2 a1 by (rule section_built_mono)
  qed
  have d1: "idxs = acc @ (idx # news)" using idxs by simp
  have d2: "map idx_slug (idx # news) = sec # rest" using slug slugs by simp
  have d3: "length (ds # dss) = length (idx # news)" using len by simp
  have d4: "written w' = written w @ concat (map2 (section_writes E) (idx # news) (ds # dss))"
    using wr1 wr2 by simp
  have d5: "console_log w' = console_log w" "console_error w' = console_error w"
    using same1 same2 by simp_all
  have d6: "agrees w w' ?W"
    using fr1 fr2 s1 s2 by (rule agrees_trans)
  have d7: "list_all2 (section_built E w ?W) (idx # news) (ds # dss)"
    using h t by simp
  show ?case
    by (rule exI [where x = "idx # news"], rule exI [where x = "ds # dss"])
       (intro conjI d1 d2 d3 d4 d5 d6 d7)
qed

lemma main_cases:
  assumes "main E w = (Inr (), w')"
  shows "\<exists>cfg y secs idxs w0 w1.
        mkdirs E (dirDist E) w = Inr w0
      \<and> readFile w (resolve E (dirDocs E) ''_index.yaml'') = Inr cfg
      \<and> yaml_load E cfg = Inr y
      \<and> y_sections y = Some secs
      \<and> sections_loop E secs [] w0 = (Inr idxs, w1)
      \<and> writeFile E (manifestFile E) (stringify E (manifest_json idxs))
            (w1\<lparr>console_log := console_log w1 @ [stringify E (manifest_json idxs)]\<rparr>) = Inr w'"
proof (cases "mkdirs E (dirDist E) w")
  case (Inl e)
  with assms show ?thesis by (simp add: main_def)
next
  case (Inr w0)
  note mk = this
  have r0: "readFile w0 p = readFile w p" for p
    using mkdirs_Inr(1) [OF mk] by (simp add: readFile_def)
  show ?thesis
  proof (cases "readFile w (resolve E (dirDocs E) ''_index.yaml'')")
    case (Inl e)
    with assms mk r0 show ?thesis by (simp add: main_def)
  next
    case (Inr cfg)
    note rd = this
    show ?thesis
    proof (cases "yaml_load E cfg")
      case (Inl e)
      with assms mk r0 rd show ?thesis by (simp add: main_def)
    next
      case (Inr y)
      note y = this
      show ?thesis
      proof (cases "y_sections y")
        case None
        with assms mk r0 rd y show ?thesis by (simp add: main_def)
      next
        case (Some secs)
        note se = this
        obtain r w1 where l: "sections_loop E secs [] w0 = (r, w1)"
          by (cases "sections_loop E secs [] w0")
        show ?thesis
        proof (cases r)
          case (Inl e)
          with assms mk r0 rd y se l show ?thesis by (simp add: main_def)
        next
          case (Inr idxs)
          with assms mk r0 rd y se l show ?thesis
            by (auto simp: main_def Let_def split: sum.splits)
        qed
      qed
    qed
  qed
qed

lemma main_Inr:
  assumes "main E w = (Inr (), w')"
  shows "\<exists>cfg y secs idxs dss.
        readFile w (resolve E (dirDocs E) ''_index.yaml'') = Inr cfg
      \<and> yaml_load E cfg = Inr y
      \<and> y_sections y = Some secs
      \<and> map idx_slug idxs = secs
      \<and> length dss = length idxs
      \<and> new_writes w w' = concat (map2 (section_writes E) idxs dss)
                             @ [(manifestFile E, stringify E (manifest_json idxs))]
      \<and> list_all2 (section_built E w (fst ` set (new_writes w w'))) idxs dss
      \<and> console_log w' = console_log w @ [stringify E (manifest_json idxs)]
      \<and> console_error w' = console_error w"
proof -
  from main_cases [OF assms] obtain cfg y secs idxs w0 w1
    where mk: "mkdirs E (dirDist E) w = Inr w0"
      and rd: "readFile w (resolve E (dirDocs E) ''_index.yaml'') = Inr cfg"
      and y: "yaml_load E cfg = Inr y"
      and se: "y_sections y = Some secs"
      and loop: "sections_loop E secs [] w0 = (Inr idxs, w1)"
      and wf: "writeFile E (manifestFile E) (stringify E (manifest_json idxs))
            (w1\<lparr>console_log := console_log w1 @ [stringify E (manifest_json idxs)]\<rparr>) = Inr w'"
    by blast
  note w0 = mkdirs_Inr [OF mk]
  note w' = writeFile_Inr [OF wf]
  from sections_loop_Inr [OF loop] obtain news dss where idxs: "idxs = news"
    and slugs: "map idx_slug news = secs" and len: "length dss = length news"
    and wr: "written w1 = written w0 @ concat (map2 (section_writes E) news dss)"
    and same: "console_log w1 = console_log w0" "console_error w1 = console_error w0"
    and built: "list_all2
         (section_built E w0 (fst ` set (concat (map2 (section_writes E) news dss)))) news dss"
    by auto
  let ?W1 = "fst ` set (concat (map2 (section_writes E) idxs dss))"
  have nw: "new_writes w w' = concat (map2 (section_writes E) idxs dss)
                             @ [(manifestFile E, stringify E (manifest_json idxs))]"
    using wr by (simp add: new_writes_def w'(2) w0(2) idxs)
  have sub: "?W1 \<subseteq> fst ` set (new_writes w w')"
    unfolding nw by auto
  have a0: "agrees w w0 (fst ` set (new_writes w w'))"
    by (simp add: agrees_def w0(1))
  have b: "list_all2 (section_built E w (fst ` set (new_writes w w'))) idxs dss"
    using built unfolding idxs [symmetric]
  proof (rule list_all2_mono)
    fix i d
    assume "section_built E w0 ?W1 i d"
    then show "section_built E w (fst ` set (new_writes w w')) i d"
      using sub a0 by (rule section_built_mono)
  qed
  have c1: "console_log w' = console_log w @ [stringify E (manifest_json idxs)]"
    using same by (simp add: w'(4) w0(3))
  have c2: "console_error w' = console_error w"
    using same by (simp add: w'(5) w0(4))
  have s: "map idx_slug idxs = secs" "length dss = length idxs"
    using slugs len by (simp_all add: idxs)
  show ?thesis
    by (rule exI [where x = cfg], rule exI [where x = y], rule exI [where x = secs],
        rule exI [where x = idxs], rule exI [where x = dss])
       (intro conjI rd y se s nw b c1 c2)
qed

text \<open>The two objects the script serialises, written out.\<close>

lemma document_json_explicit:
  "document_json d
     = JObject [(''html'', JVal (Str (html d))),
         (''examples'', JArray (map (\<lambda>x.
            JObject [(''javascript'', JVal (Str (javascript x))),
                     (''typescript'', JVal (Str (typescript x))),
                     (''fiddle'', JBool (fiddle x))]) (examples d)))]"
  by (simp add: document_json_def example_json_def)

lemma manifest_json_explicit:
  "manifest_json idxs
     = JObject [(''sections'', JArray (map (\<lambda>idx.
         JObject [(''name'', JVal (idx_name idx)),
                  (''slug'', JVal (Str (idx_slug idx))),
                  (''description'', JVal (Str (idx_description idx))),
                  (''subsections'', JArray (map (\<lambda>ent.
                     JObject [(''headers'', JObject (map (\<lambda>(k, v). (k, JVal v)) (sub_headers ent))),
                              (''slug'', JVal (Str (sub_slug ent))),
                              (''url'', JVal (Str (sub_url ent)))])
                     (idx_subsections idx)))]) idxs))]"
  by (simp add: manifest_json_def index_json_def subsection_json_def)

lemma section_writes_entries:
  "section_writes E idx ds
     = map2 (\<lambda>ent d. (distFile E (idx_slug idx) (sub_slug ent),
                        stringify E (JObject [(''html'', JVal (Str (html d))),
                          (''examples'', JArray (map (\<lambda>x.
                             JObject [(''javascript'', JVal (Str (javascript x))),
                                      (''typescript'', JVal (Str (typescript x))),
                                      (''fiddle'', JBool (fiddle x))]) (examples d)))])))
         (idx_subsections idx) ds"
  by (simp add: section_writes_def doc_write_def document_json_explicit zip_map1 split_def)

lemma section_built_entries:
  assumes "section_built E w W idx ds"
  shows "list_all2 (\<lambda>ent d. sub_headers ent = headers d
             \<and> sub_url ent = replace_first (dirDist E) ''/docs''
                               (distFile E (idx_slug idx) (sub_slug ent))
             \<and> (\<exists>v. agrees w v W
                  \<and> parse E v (srcFile E (idx_slug idx) (sub_slug ent)) = Inr d))
           (idx_subsections idx) ds"
proof (rule list_all2_all_nthI)
  let ?ents = "idx_subsections idx"
  from assms have len: "length ds = length ?ents"
    and eq: "?ents = map2 (entry E (idx_slug idx)) (map sub_slug ?ents) ds"
    and ps: "list_all2 (\<lambda>sub d. \<exists>v. agrees w v W
                     \<and> parse E v (srcFile E (idx_slug idx) sub) = Inr d)
               (map sub_slug ?ents) ds"
    by (simp_all add: section_built_def)
  show "length ?ents = length ds" using len by simp
  fix n assume n: "n < length ?ents"
  have "map2 (entry E (idx_slug idx)) (map sub_slug ?ents) ds ! n
          = entry E (idx_slug idx) (sub_slug (?ents ! n)) (ds ! n)"
    using n len by simp
  with arg_cong [OF eq, of "\<lambda>xs. xs ! n"]
  have e: "?ents ! n = entry E (idx_slug idx) (sub_slug (?ents ! n)) (ds ! n)"
    by (rule trans)
  have h: "sub_headers (?ents ! n) = headers (ds ! n)"
    by (subst e) (simp add: entry_def)
  have u: "sub_url (?ents ! n) = replace_first (dirDist E) ''/docs''
                                   (distFile E (idx_slug idx) (sub_slug (?ents ! n)))"
    by (subst e) (simp add: entry_def url_def)
  from ps n len have "\<exists>v. agrees w v W
       \<and> parse E v (srcFile E (idx_slug idx) (sub_slug (?ents ! n))) = Inr (ds ! n)"
    by (auto simp: list_all2_conv_all_nth)
  with h u show "sub_headers (?ents ! n) = headers (ds ! n)
       \<and> sub_url (?ents ! n) = replace_first (dirDist E) ''/docs''
                                  (distFile E (idx_slug idx) (sub_slug (?ents ! n)))
       \<and> (\<exists>v. agrees w v W
             \<and> parse E v (srcFile E (idx_slug idx) (sub_slug (?ents ! n))) = Inr (ds ! n))"
    by simp
qed

text \<open>The worked site builds.\<close>

lemmas demo_build = url_def document_json_def example_json_def manifest_json_def index_json_def
  subsection_json_def trim_def renderer_code_def codeBlock_def codeSpan_def highlight_def
  prism_def match_separator_def

lemma demo_main: "fst (main demo_site_env demo_site) = Inr ()"
  by (simp add: demo_defs demo_headers demo_build)

lemma demo_written:
  "written (snd (main demo_site_env demo_site)) =
     [(''/dist/tour/welcome.json'', ''{html:<<p>Hi</p>>;examples:[];}''),
      (''/dist/tour/hello.json'',
       ''{html:<<example-slot></example-slot>>;examples:[{javascript:<<pre><code class=\"lang-javascript\">let a</code></pre>>;typescript:<<pre><code class=\"lang-typescript\">let a: any</code></pre>>;fiddle:true;}];}''),
      (''/dist/guide/install.json'', ''{html:<<p>npm</p>>;examples:[];}''),
      (''/dist/manifest.json'',
       ''{sections:[{name:<Tour>;slug:<tour>;description:<A tour>;subsections:[{headers:{title:<Welcome>;};slug:<welcome>;url:</docs/tour/welcome.json>;}{headers:{title:<Hello World>;};slug:<hello>;url:</docs/tour/hello.json>;}];}{name:<Guide>;slug:<guide>;description:<How to>;subsections:[{headers:{title:<Install>;};slug:<install>;url:</docs/guide/install.json>;}];}];}'')]"
  by (simp add: demo_defs demo_headers demo_build)

subsection \<open>The order of the manifest\<close>

text \<open>
  Claim C3.  After a successful build the last file written is the manifest: the object
  with the one property \<open>sections\<close>, an array with one index for each section identifier
  of the root configuration file, in the order of that file; the \<open>subsections\<close> array of
  each index has one entry for each subsection identifier that the configuration file of
  its section declares, in the order of that file.  (The configuration file of a section
  is read during the build: in a file system that agrees with the initial one outside the
  files the build has written.)
\<close>

theorem manifest_order:
  assumes "main E w = (Inr (), w')"
  shows "\<exists>cfg y secs (idxs :: index list).
        readFile w (resolve E (dirDocs E) ''_index.yaml'') = Inr cfg
      \<and> yaml_load E cfg = Inr y
      \<and> y_sections y = Some secs
      \<and> map idx_slug idxs = secs
      \<and> (\<forall>idx \<in> set idxs. \<exists>v cfg y.
            agrees w v (fst ` set (new_writes w w'))
          \<and> readFile v (sectionIndex E (idx_slug idx)) = Inr cfg
          \<and> yaml_load E cfg = Inr y
          \<and> y_subsections y = Some (map sub_slug (idx_subsections idx)))
      \<and> last (written w')
          = (manifestFile E,
             stringify E (JObject [(''sections'', JArray (map (\<lambda>idx.
               JObject [(''name'', JVal (idx_name idx)),
                        (''slug'', JVal (Str (idx_slug idx))),
                        (''description'', JVal (Str (idx_description idx))),
                        (''subsections'', JArray (map (\<lambda>ent.
                           JObject [(''headers'',
                                     JObject (map (\<lambda>(k, v). (k, JVal v)) (sub_headers ent))),
                                    (''slug'', JVal (Str (sub_slug ent))),
                                    (''url'', JVal (Str (sub_url ent)))])
                           (idx_subsections idx)))]) idxs))]))"
proof -
  from main_Inr [OF assms] obtain cfg y secs idxs dss
    where rd: "readFile w (resolve E (dirDocs E) ''_index.yaml'') = Inr cfg"
      and y: "yaml_load E cfg = Inr y"
      and se: "y_sections y = Some secs"
      and slugs: "map idx_slug idxs = secs"
      and nw: "new_writes w w' = concat (map2 (section_writes E) idxs dss)
                             @ [(manifestFile E, stringify E (manifest_json idxs))]"
      and built: "list_all2 (section_built E w (fst ` set (new_writes w w'))) idxs dss"
    by blast
  have "drop (length (written w)) (written w') \<noteq> []"
    using nw by (simp add: new_writes_def)
  then have "last (drop (length (written w)) (written w')) = last (written w')"
    by (intro last_drop) simp
  then have "last (written w') = (manifestFile E, stringify E (manifest_json idxs))"
    using nw by (simp add: new_writes_def)
  then have la: "last (written w')
          = (manifestFile E,
             stringify E (JObject [(''sections'', JArray (map (\<lambda>idx.
               JObject [(''name'', JVal (idx_name idx)),
                        (''slug'', JVal (Str (idx_slug idx))),
                        (''description'', JVal (Str (idx_description idx))),
                        (''subsections'', JArray (map (\<lambda>ent.
                           JObject [(''headers'',
                                     JObject (map (\<lambda>(k, v). (k, JVal v)) (sub_headers ent))),
                                    (''slug'', JVal (Str (sub_slug ent))),
                                    (''url'', JVal (Str (sub_url ent)))])
                           (idx_subsections idx)))]) idxs))]))"
    by (simp only: manifest_json_explicit)
  have subs: "\<exists>v cfg y. agrees w v (fst ` set (new_writes w w'))
                  \<and> readFile v (sectionIndex E (idx_slug idx)) = Inr cfg
                  \<and> yaml_load E cfg = Inr y
                  \<and> y_subsections y = Some (map sub_slug (idx_subsections idx))"
    if "idx \<in> set idxs" for idx
  proof -
    from that built obtain ds where "section_built E w (fst ` set (new_writes w w')) idx ds"
      by (auto simp: list_all2_conv_all_nth in_set_conv_nth)
    then show ?thesis
      unfolding section_built_def by blast
  qed
  show ?thesis
    apply (intro exI conjI)
         apply (rule rd)
        apply (rule y)
       apply (rule se)
      apply (rule slugs)
     apply (intro ballI subs, assumption)
    apply (rule la)
    done
qed

text \<open>
  The worked site: the root configuration file declares \<^verbatim>\<open>tour\<close> before \<^verbatim>\<open>guide\<close>, and the
  configuration file of \<^verbatim>\<open>tour\<close> declares \<^verbatim>\<open>welcome\<close> before \<^verbatim>\<open>hello\<close>.
\<close>

theorem manifest_order_witness:
  "fst (main demo_site_env demo_site) = Inr ()
   \<and> readFile demo_site ''/docs/_index.yaml'' = Inr ''sections: [tour, guide]''
   \<and> readFile demo_site ''/docs/tour/_index.yaml'' = Inr ''section: Tour''
   \<and> map_sum id y_subsections (demo_yaml ''section: Tour'') = Inr (Some [''welcome'', ''hello''])
   \<and> last (written (snd (main demo_site_env demo_site)))
       = (''/dist/manifest.json'',
          ''{sections:[{name:<Tour>;slug:<tour>;description:<A tour>;subsections:[{headers:{title:<Welcome>;};slug:<welcome>;url:</docs/tour/welcome.json>;}{headers:{title:<Hello World>;};slug:<hello>;url:</docs/tour/hello.json>;}];}{name:<Guide>;slug:<guide>;description:<How to>;subsections:[{headers:{title:<Install>;};slug:<install>;url:</docs/guide/install.json>;}];}];}'')"
proof -
  have m: "main demo_site_env demo_site = (Inr (), snd (main demo_site_env demo_site))"
    using demo_main by (metis prod.collapse)
  have r: "readFile demo_site ''/docs/_index.yaml'' = Inr ''sections: [tour, guide]''"
      "readFile demo_site ''/docs/tour/_index.yaml'' = Inr ''section: Tour''"
      "map_sum id y_subsections (demo_yaml ''section: Tour'') = Inr (Some [''welcome'', ''hello''])"
    by (simp_all add: readFile_def demo_site_def demo_world_def demo_yaml_def)
  from manifest_order [OF m] demo_main demo_written r show ?thesis
    by simp
qed

subsection \<open>The files written\<close>

text \<open>
  Claim C6.  A successful build writes, for every subsection that the configuration file
  of a section declares, of every section that the root configuration file declares, and
  in that order, one file: at the path of the subsection in the distribution directory,
  holding the JSON object with the two properties \<open>html\<close> and \<open>examples\<close> of the document
  parsed from its source file.  After them it writes one more file, the manifest, whose
  entry for a subsection has the three properties \<open>headers\<close>, \<open>slug\<close> and \<open>url\<close>: the headers
  of that document, the identifier of the subsection, and the path of its file with the
  distribution directory replaced by \<^verbatim>\<open>/docs\<close>.  (The files are read during the build: in a
  file system that agrees with the initial one outside the files the build has written.)
\<close>

theorem build_writes:
  assumes "main E w = (Inr (), w')"
  shows "\<exists>cfg y (idxs :: index list) dss.
        readFile w (resolve E (dirDocs E) ''_index.yaml'') = Inr cfg
      \<and> yaml_load E cfg = Inr y
      \<and> y_sections y = Some (map idx_slug idxs)
      \<and> length dss = length idxs
      \<and> new_writes w w'
          = concat (map2 (\<lambda>idx ds.
               map2 (\<lambda>ent d. (distFile E (idx_slug idx) (sub_slug ent),
                                stringify E (JObject [(''html'', JVal (Str (html d))),
                                  (''examples'', JArray (map (\<lambda>x.
                                     JObject [(''javascript'', JVal (Str (javascript x))),
                                              (''typescript'', JVal (Str (typescript x))),
                                              (''fiddle'', JBool (fiddle x))])
                                     (examples d)))])))
                 (idx_subsections idx) ds) idxs dss)
            @ [(manifestFile E,
                stringify E (JObject [(''sections'', JArray (map (\<lambda>idx.
                  JObject [(''name'', JVal (idx_name idx)),
                           (''slug'', JVal (Str (idx_slug idx))),
                           (''description'', JVal (Str (idx_description idx))),
                           (''subsections'', JArray (map (\<lambda>ent.
                              JObject [(''headers'',
                                        JObject (map (\<lambda>(k, v). (k, JVal v)) (sub_headers ent))),
                                       (''slug'', JVal (Str (sub_slug ent))),
                                       (''url'', JVal (Str (sub_url ent)))])
                              (idx_subsections idx)))]) idxs))]))]
      \<and> list_all2 (\<lambda>idx ds.
            (\<exists>v cfg y. agrees w v (fst ` set (new_writes w w'))
                \<and> readFile v (sectionIndex E (idx_slug idx)) = Inr cfg
                \<and> yaml_load E cfg = Inr y
                \<and> y_subsections y = Some (map sub_slug (idx_subsections idx)))
          \<and> list_all2 (\<lambda>ent d. sub_headers ent = headers d
                \<and> sub_url ent = replace_first (dirDist E) ''/docs''
                                  (distFile E (idx_slug idx) (sub_slug ent))
                \<and> (\<exists>v. agrees w v (fst ` set (new_writes w w'))
                     \<and> parse E v (srcFile E (idx_slug idx) (sub_slug ent)) = Inr d))
              (idx_subsections idx) ds) idxs dss"
proof -
  let ?W = "fst ` set (new_writes w w')"
  from main_Inr [OF assms] obtain cfg y secs idxs dss
    where rd: "readFile w (resolve E (dirDocs E) ''_index.yaml'') = Inr cfg"
      and y: "yaml_load E cfg = Inr y"
      and se: "y_sections y = Some secs"
      and slugs: "map idx_slug idxs = secs"
      and len: "length dss = length idxs"
      and nw: "new_writes w w' = concat (map2 (section_writes E) idxs dss)
                             @ [(manifestFile E, stringify E (manifest_json idxs))]"
      and built: "list_all2 (section_built E w ?W) idxs dss"
    by blast
  have se': "y_sections y = Some (map idx_slug idxs)"
    using se slugs by simp
  have sw: "section_writes E = (\<lambda>idx ds.
               map2 (\<lambda>ent d. (distFile E (idx_slug idx) (sub_slug ent),
                                stringify E (JObject [(''html'', JVal (Str (html d))),
                                  (''examples'', JArray (map (\<lambda>x.
                                     JObject [(''javascript'', JVal (Str (javascript x))),
                                              (''typescript'', JVal (Str (typescript x))),
                                              (''fiddle'', JBool (fiddle x))])
                                     (examples d)))])))
                 (idx_subsections idx) ds)"
    by (intro ext) (rule section_writes_entries)
  have nw': "new_writes w w'
          = concat (map2 (\<lambda>idx ds.
               map2 (\<lambda>ent d. (distFile E (idx_slug idx) (sub_slug ent),
                                stringify E (JObject [(''html'', JVal (Str (html d))),
                                  (''examples'', JArray (map (\<lambda>x.
                                     JObject [(''javascript'', JVal (Str (javascript x))),
                                              (''typescript'', JVal (Str (typescript x))),
                                              (''fiddle'', JBool (fiddle x))])
                                     (examples d)))])))
                 (idx_subsections idx) ds) idxs dss)
            @ [(manifestFile E,
                stringify E (JObject [(''sections'', JArray (map (\<lambda>idx.
                  JObject [(''name'', JVal (idx_name idx)),
                           (''slug'', JVal (Str (idx_slug idx))),
                           (''description'', JVal (Str (idx_description idx))),
                           (''subsections'', JArray (map (\<lambda>ent.
                              JObject [(''headers'',
                                        JObject (map (\<lambda>(k, v). (k, JVal v)) (sub_headers ent))),
                                       (''slug'', JVal (Str (sub_slug ent))),
                                       (''url'', JVal (Str (sub_url ent)))])
                              (idx_subsections idx)))]) idxs))]))]"
    unfolding nw by (simp only: sw manifest_json_explicit)
  have all: "list_all2 (\<lambda>idx ds.
            (\<exists>v cfg y. agrees w v ?W
                \<and> readFile v (sectionIndex E (idx_slug idx)) = Inr cfg
                \<and> yaml_load E cfg = Inr y
                \<and> y_subsections y = Some (map sub_slug (idx_subsections idx)))
          \<and> list_all2 (\<lambda>ent d. sub_headers ent = headers d
                \<and> sub_url ent = replace_first (dirDist E) ''/docs''
                                  (distFile E (idx_slug idx) (sub_slug ent))
                \<and> (\<exists>v. agrees w v ?W
                     \<and> parse E v (srcFile E (idx_slug idx) (sub_slug ent)) = Inr d))
              (idx_subsections idx) ds) idxs dss"
    using built
  proof (rule list_all2_mono)
    fix idx ds
    assume b: "section_built E w ?W idx ds"
    then have "\<exists>v cfg y. agrees w v ?W
                \<and> readFile v (sectionIndex E (idx_slug idx)) = Inr cfg
                \<and> yaml_load E cfg = Inr y
                \<and> y_subsections y = Some (map sub_slug (idx_subsections idx))"
      unfolding section_built_def by blast
    with section_built_entries [OF b]
    show "(\<exists>v cfg y. agrees w v ?W
                \<and> readFile v (sectionIndex E (idx_slug idx)) = Inr cfg
                \<and> yaml_load E cfg = Inr y
                \<and> y_subsections y = Some (map sub_slug (idx_subsections idx)))
          \<and> list_all2 (\<lambda>ent d. sub_headers ent = headers d
                \<and> sub_url ent = replace_first (dirDist E) ''/docs''
                                  (distFile E (idx_slug idx) (sub_slug ent))
                \<and> (\<exists>v. agrees w v ?W
                     \<and> parse E v (srcFile E (idx_slug idx) (sub_slug ent)) = Inr d))
              (idx_subsections idx) ds"
      by (rule conjI [rotated])
  qed
  show ?thesis
    apply (intro exI conjI)
         apply (rule rd)
        apply (rule y)
       apply (rule se')
      apply (rule len)
     apply (rule nw')
    apply (rule all)
    done
qed

text \<open>The files of the worked site; the second document has an example.\<close>

theorem build_writes_witness:
  "fst (main demo_site_env demo_site) = Inr ()
   \<and> new_writes demo_site (snd (main demo_site_env demo_site)) =
     [(''/dist/tour/welcome.json'', ''{html:<<p>Hi</p>>;examples:[];}''),
      (''/dist/tour/hello.json'',
       ''{html:<<example-slot></example-slot>>;examples:[{javascript:<<pre><code class=\"lang-javascript\">let a</code></pre>>;typescript:<<pre><code class=\"lang-typescript\">let a: any</code></pre>>;fiddle:true;}];}''),
      (''/dist/guide/install.json'', ''{html:<<p>npm</p>>;examples:[];}''),
      (''/dist/manifest.json'',
       ''{sections:[{name:<Tour>;slug:<tour>;description:<A tour>;subsections:[{headers:{title:<Welcome>;};slug:<welcome>;url:</docs/tour/welcome.json>;}{headers:{title:<Hello World>;};slug:<hello>;url:</docs/tour/hello.json>;}];}{name:<Guide>;slug:<guide>;description:<How to>;subsections:[{headers:{title:<Install>;};slug:<install>;url:</docs/guide/install.json>;}];}];}'')]"
proof -
  have m: "main demo_site_env demo_site = (Inr (), snd (main demo_site_env demo_site))"
    using demo_main by (metis prod.collapse)
  have w0: "written demo_site = []"
    by (simp add: demo_site_def demo_world_def)
  from build_writes [OF m] demo_main demo_written w0 show ?thesis
    by (simp add: new_writes_def)
qed

subsection \<open>Errors\<close>

text \<open>No part of the build writes to the error console.\<close>

lemma subsections_loop_console_error:
  "subsections_loop E sec subs acc w = (r, w') \<Longrightarrow> console_error w' = console_error w"
proof (induction subs arbitrary: acc w)
  case Nil
  then show ?case by simp
next
  case (Cons a rest)
  show ?case
  proof (cases "parse E w (srcFile E sec a)")
    case (Inl e)
    with Cons.prems show ?thesis by simp
  next
    case (Inr d)
    note d = this
    show ?thesis
    proof (cases "writeFile E (distFile E sec a) (stringify E (document_json d)) w")
      case (Inl e)
      with Cons.prems d show ?thesis by simp
    next
      case (Inr w1)
      with Cons.prems d have "subsections_loop E sec rest
          (acc @ [\<lparr>sub_headers = headers d, sub_slug = a,
                    sub_url = url E (distFile E sec a)\<rparr>]) w1 = (r, w')"
        by simp
      from Cons.IH [OF this] writeFile_Inr(5) [OF Inr] show ?thesis by simp
    qed
  qed
qed

lemma section_body_console_error:
  assumes "section_body E sec w = (r, w')"
  shows "console_error w' = console_error w"
proof (cases "readFile w (sectionIndex E sec)")
  case (Inl e)
  with assms show ?thesis by (auto simp: section_body_def)
next
  case (Inr cfg)
  note rd = this
  show ?thesis
  proof (cases "yaml_load E cfg")
    case (Inl e)
    with assms rd show ?thesis by (auto simp: section_body_def)
  next
    case (Inr y)
    note y = this
    show ?thesis
    proof (cases "y_description y")
      case Undefined
      with assms rd y show ?thesis by (auto simp: section_body_def)
    next
      case Null
      with assms rd y show ?thesis by (auto simp: section_body_def)
    next
      case (Str descr)
      note de = this
      show ?thesis
      proof (cases "mkdirs E (resolve E (dirDist E) sec) w")
        case (Inl e)
        with assms rd y de show ?thesis by (auto simp: section_body_def)
      next
        case (Inr w1)
        note mk = this
        note c1 = mkdirs_Inr(4) [OF mk]
        show ?thesis
        proof (cases "y_subsections y")
          case None
          with assms rd y de mk c1 show ?thesis by (auto simp: section_body_def)
        next
          case (Some subs)
          obtain r2 w2 where s: "subsections_loop E sec subs [] w1 = (r2, w2)"
            by (cases "subsections_loop E sec subs [] w1")
          from assms rd y de mk Some s have "w' = w2"
            by (cases r2) (auto simp: section_body_def)
          with subsections_loop_console_error [OF s] c1 show ?thesis by simp
        qed
      qed
    qed
  qed
qed

lemma sections_loop_console_error:
  "sections_loop E secs acc w = (r, w') \<Longrightarrow> console_error w' = console_error w"
proof (induction secs arbitrary: acc w)
  case Nil
  then show ?case by simp
next
  case (Cons sec rest)
  obtain r1 w1 where b: "section_body E sec w = (r1, w1)"
    by (cases "section_body E sec w")
  note c = section_body_console_error [OF b]
  show ?case
  proof (cases r1)
    case (Inl e)
    with Cons.prems b c show ?thesis by simp
  next
    case (Inr idx)
    with Cons.prems b have "sections_loop E rest (acc @ [idx]) w1 = (r, w')" by simp
    from Cons.IH [OF this] c show ?thesis by simp
  qed
qed

lemma main_console_error:
  assumes "main E w = (r, w')"
  shows "console_error w' = console_error w"
proof (cases "mkdirs E (dirDist E) w")
  case (Inl e)
  with assms show ?thesis by (auto simp: main_def)
next
  case (Inr w0)
  note mk = this
  note c0 = mkdirs_Inr(4) [OF mk]
  show ?thesis
  proof (cases "readFile w0 (resolve E (dirDocs E) ''_index.yaml'')")
    case (Inl e)
    with assms mk c0 show ?thesis by (auto simp: main_def)
  next
    case (Inr cfg)
    note rd = this
    show ?thesis
    proof (cases "yaml_load E cfg")
      case (Inl e)
      with assms mk rd c0 show ?thesis by (auto simp: main_def)
    next
      case (Inr y)
      note y = this
      show ?thesis
      proof (cases "y_sections y")
        case None
        with assms mk rd y c0 show ?thesis by (auto simp: main_def)
      next
        case (Some secs)
        obtain r1 w1 where l: "sections_loop E secs [] w0 = (r1, w1)"
          by (cases "sections_loop E secs [] w0")
        from sections_loop_console_error [OF l] c0
        have c1: "console_error w1 = console_error w" by simp
        show ?thesis
        proof (cases r1)
          case (Inl e)
          with assms mk rd y Some l c1 show ?thesis by (auto simp: main_def)
        next
          case (Inr idxs)
          let ?w2 = "w1\<lparr>console_log := console_log w1 @ [stringify E (manifest_json idxs)]\<rparr>"
          show ?thesis
          proof (cases "writeFile E (manifestFile E) (stringify E (manifest_json idxs)) ?w2")
            case (Inl e)
            with assms mk rd y Some l c1 \<open>r1 = Inr idxs\<close> show ?thesis
              by (auto simp: main_def Let_def)
          next
            case (Inr w3)
            with assms mk rd y Some l \<open>r1 = Inr idxs\<close> have "w' = w3"
              by (auto simp: main_def Let_def)
            with writeFile_Inr(5) [OF Inr] c1 show ?thesis by simp
          qed
        qed
      qed
    qed
  qed
qed

text \<open>A loop over a list runs over a first part of it and goes on from there.\<close>

lemma subsections_loop_append:
  "subsections_loop E sec (xs @ ys) acc w =
     (case subsections_loop E sec xs acc w of
        (Inl e, w') \<Rightarrow> (Inl e, w')
      | (Inr ents, w') \<Rightarrow> subsections_loop E sec ys ents w')"
  by (induction xs arbitrary: acc w) (auto split: sum.splits)

lemma sections_loop_append:
  "sections_loop E (xs @ ys) acc w =
     (case sections_loop E xs acc w of
        (Inl e, w') \<Rightarrow> (Inl e, w')
      | (Inr idxs, w') \<Rightarrow> sections_loop E ys idxs w')"
  by (induction xs arbitrary: acc w) (auto split: sum.splits prod.splits)

text \<open>The error of a step is the error of the function that runs the step.\<close>

lemma document_raises_loop:
  assumes "document_raises E sec sub w e"
  shows "subsections_loop E sec (sub # rest) acc w = (Inl e, w)"
  using assms by cases (auto simp: parse_def markdown_of_def Let_def)

lemma section_raises_body:
  assumes "section_raises E sec w e"
  shows "\<exists>w'. section_body E sec w = (Inl e, w')"
  using assms
proof cases
  case (document_fails cfg y description w1 built sub rest subs w2)
  have "subsections_loop E sec (built @ sub # rest) [] w1 = (Inl e, w2)"
    using document_fails(6) document_raises_loop [OF document_fails(7)]
    by (simp add: subsections_loop_append)
  with document_fails(1-5) show ?thesis
    by (simp add: section_body_def)
qed (auto simp: section_body_def)

lemma build_raises_main:
  assumes "build_raises E w e"
  shows "\<exists>w'. main E w = (Inl e, w')"
  using assms
proof cases
  case (section_fails w0 cfg y built sec rest idxs w1)
  from section_raises_body [OF section_fails(6)] obtain w2
    where "section_body E sec w1 = (Inl e, w2)" by blast
  with section_fails(5) have "sections_loop E (built @ sec # rest) [] w0 = (Inl e, w2)"
    by (simp add: sections_loop_append)
  with section_fails(1-4) show ?thesis
    by (simp add: main_def)
qed (auto simp: main_def Let_def)

text \<open>Conversely, an error with which \<open>main\<close> ends is the error of one of the steps.\<close>

lemma parse_Inl:
  assumes "parse E w p = Inl e"
  shows "readFile w p = Inl e
       \<or> (\<exists>c. readFile w p = Inr c \<and> compileMarkdown E (markdown_of c) = Inl e)"
  using assms by (auto simp: parse_def markdown_of_def Let_def split: sum.splits)

lemma subsections_loop_Inl:
  assumes "subsections_loop E sec subs acc w = (Inl e, w')"
  shows "\<exists>built sub rest ents w2. subs = built @ sub # rest
       \<and> subsections_loop E sec built acc w = (Inr ents, w2)
       \<and> document_raises E sec sub w2 e"
  using assms
proof (induction subs arbitrary: acc w)
  case Nil
  then show ?case by simp
next
  case (Cons a rest)
  have here: ?case if "document_raises E sec a w e"
  proof -
    have "a # rest = [] @ a # rest" "subsections_loop E sec [] acc w = (Inr acc, w)"
      by simp_all
    with that show ?thesis by blast
  qed
  show ?case
  proof (cases "parse E w (srcFile E sec a)")
    case (Inl e')
    with Cons.prems have "parse E w (srcFile E sec a) = Inl e" by simp
    from parse_Inl [OF this] have "document_raises E sec a w e"
      by (auto intro: document_raises.intros)
    then show ?thesis by (rule here)
  next
    case (Inr d)
    note d = this
    show ?thesis
    proof (cases "writeFile E (distFile E sec a) (stringify E (document_json d)) w")
      case (Inl e')
      with Cons.prems d have "e' = e" by simp
      with d Inl have "document_raises E sec a w e"
        by (auto intro: document_raises.intros)
      then show ?thesis by (rule here)
    next
      case (Inr w1)
      let ?acc = "acc @ [\<lparr>sub_headers = headers d, sub_slug = a,
                    sub_url = url E (distFile E sec a)\<rparr>]"
      from Cons.prems d Inr have "subsections_loop E sec rest ?acc w1 = (Inl e, w')"
        by simp
      from Cons.IH [OF this] obtain built sub rest' ents w2
        where r: "rest = built @ sub # rest'"
          and l: "subsections_loop E sec built ?acc w1 = (Inr ents, w2)"
          and dr: "document_raises E sec sub w2 e"
        by blast
      have "a # rest = (a # built) @ sub # rest'"
        using r by simp
      moreover have "subsections_loop E sec (a # built) acc w = (Inr ents, w2)"
        using d Inr l by simp
      ultimately show ?thesis using dr by blast
    qed
  qed
qed

lemma section_body_Inl:
  assumes "section_body E sec w = (Inl e, w')"
  shows "section_raises E sec w e"
proof (cases "readFile w (sectionIndex E sec)")
  case (Inl e')
  with assms show ?thesis
    by (auto simp: section_body_def intro: section_raises.index_unreadable)
next
  case (Inr cfg)
  note rd = this
  show ?thesis
  proof (cases "yaml_load E cfg")
    case (Inl e')
    with assms rd show ?thesis
      by (auto simp: section_body_def intro: section_raises.index_malformed)
  next
    case (Inr y)
    note y = this
    show ?thesis
    proof (cases "y_description y")
      case Undefined
      with assms rd y section_raises.description_missing [OF rd y] show ?thesis
        by (auto simp: section_body_def)
    next
      case Null
      with assms rd y section_raises.description_missing [OF rd y] show ?thesis
        by (auto simp: section_body_def)
    next
      case (Str descr)
      note de = this
      show ?thesis
      proof (cases "mkdirs E (resolve E (dirDist E) sec) w")
        case (Inl e')
        with assms rd y de section_raises.directory_refused [OF rd y de] show ?thesis
          by (auto simp: section_body_def)
      next
        case (Inr w1)
        note mk = this
        show ?thesis
        proof (cases "y_subsections y")
          case None
          with assms rd y de mk section_raises.subsections_missing [OF rd y de mk]
          show ?thesis by (auto simp: section_body_def)
        next
          case (Some subs)
          obtain r2 w2 where s: "subsections_loop E sec subs [] w1 = (r2, w2)"
            by (cases "subsections_loop E sec subs [] w1")
          from assms rd y de mk Some s have "r2 = Inl e"
            by (cases r2) (auto simp: section_body_def)
          with s have "subsections_loop E sec subs [] w1 = (Inl e, w2)" by simp
          from subsections_loop_Inl [OF this] obtain built sub rest ents w3
            where "subs = built @ sub # rest"
              and "subsections_loop E sec built [] w1 = (Inr ents, w3)"
              and "document_raises E sec sub w3 e"
            by blast
          with Some show ?thesis
            by (intro section_raises.document_fails [OF rd y de mk]) simp_all
        qed
      qed
    qed
  qed
qed

lemma sections_loop_Inl:
  assumes "sections_loop E secs acc w = (Inl e, w')"
  shows "\<exists>built sec rest idxs w1. secs = built @ sec # rest
       \<and> sections_loop E built acc w = (Inr idxs, w1)
       \<and> section_raises E sec w1 e"
  using assms
proof (induction secs arbitrary: acc w)
  case Nil
  then show ?case by simp
next
  case (Cons a rest)
  obtain r1 w1 where b: "section_body E a w = (r1, w1)"
    by (cases "section_body E a w")
  show ?case
  proof (cases r1)
    case (Inl e')
    with Cons.prems b have "section_body E a w = (Inl e, w1)" by simp
    then have "section_raises E a w e" by (rule section_body_Inl)
    moreover have "a # rest = [] @ a # rest" "sections_loop E [] acc w = (Inr acc, w)"
      by simp_all
    ultimately show ?thesis by blast
  next
    case (Inr idx)
    with Cons.prems b have "sections_loop E rest (acc @ [idx]) w1 = (Inl e, w')" by simp
    from Cons.IH [OF this] obtain built sec rest' idxs w2
      where r: "rest = built @ sec # rest'"
        and l: "sections_loop E built (acc @ [idx]) w1 = (Inr idxs, w2)"
        and sr: "section_raises E sec w2 e"
      by blast
    have "a # rest = (a # built) @ sec # rest'"
      using r by simp
    moreover have "sections_loop E (a # built) acc w = (Inr idxs, w2)"
      using b Inr l by simp
    ultimately show ?thesis using sr by blast
  qed
qed

lemma main_error_raised:
  assumes "main E w = (Inl e, w')"
  shows "build_raises E w e"
proof (cases "mkdirs E (dirDist E) w")
  case (Inl e')
  with assms show ?thesis
    by (auto simp: main_def intro: build_raises.dist_refused)
next
  case (Inr w0)
  note mk = this
  show ?thesis
  proof (cases "readFile w0 (resolve E (dirDocs E) ''_index.yaml'')")
    case (Inl e')
    with assms mk build_raises.root_unreadable [OF mk] show ?thesis
      by (auto simp: main_def)
  next
    case (Inr cfg)
    note rd = this
    show ?thesis
    proof (cases "yaml_load E cfg")
      case (Inl e')
      with assms mk rd build_raises.root_malformed [OF mk rd] show ?thesis
        by (auto simp: main_def)
    next
      case (Inr y)
      note y = this
      show ?thesis
      proof (cases "y_sections y")
        case None
        with assms mk rd y build_raises.sections_missing [OF mk rd y] show ?thesis
          by (auto simp: main_def)
      next
        case (Some secs)
        note se = this
        obtain r1 w1 where l: "sections_loop E secs [] w0 = (r1, w1)"
          by (cases "sections_loop E secs [] w0")
        show ?thesis
        proof (cases r1)
          case (Inl e')
          with assms mk rd y se l have "sections_loop E secs [] w0 = (Inl e, w1)"
            by (auto simp: main_def)
          from sections_loop_Inl [OF this] obtain built sec rest idxs w2
            where "secs = built @ sec # rest"
              and "sections_loop E built [] w0 = (Inr idxs, w2)"
              and "section_raises E sec w2 e"
            by blast
          with se show ?thesis
            by (intro build_raises.section_fails [OF mk rd y]) simp_all
        next
          case (Inr idxs)
          with l have l': "sections_loop E secs [] w0 = (Inr idxs, w1)" by simp
          from assms mk rd y se l'
          have "writeFile E (manifestFile E) (stringify E (manifest_json idxs))
                  (w1\<lparr>console_log := console_log w1 @ [stringify E (manifest_json idxs)]\<rparr>)
                = Inl e"
            by (auto simp: main_def Let_def split: sum.splits)
          then show ?thesis
            by (rule build_raises.manifest_unwritable [OF mk rd y se l'])
        qed
      qed
    qed
  qed
qed

text \<open>
  Claim C7.  Whatever step of the build raises an error, \<open>main\<close> ends with this very error,
  and the top level returns normally, having printed to the error console the stack of that
  error and nothing else.
\<close>

theorem errors_reach_console:
  assumes "build_raises E w e"
  shows "\<exists>w'. main E w = (Inl e, w')
            \<and> run E w = w'\<lparr>console_error := console_error w @ [stack E e]\<rparr>"
proof -
  from build_raises_main [OF assms] obtain w' where m: "main E w = (Inl e, w')"
    by blast
  from main_console_error [OF m] m
  have "run E w = w'\<lparr>console_error := console_error w @ [stack E e]\<rparr>"
    by (simp add: run_def)
  with m show ?thesis by blast
qed

text \<open>
  Four builds that fail: the second document of the first section is missing (the first
  one has been written by then); the root configuration file is malformed; a document has
  a block with an unknown tag; the file system refuses to write the first document.
\<close>

theorem errors_reach_console_witness:
  "fst (main demo_site_env (demo_world
      [(''/docs/_index.yaml'', ''sections: [tour, guide]''),
       (''/docs/tour/_index.yaml'', ''section: Tour''),
       (''/docs/tour/welcome.md'', ''Title: Welcome'' @ [NL] @ ''<p>Hi</p>'')]))
     = Inl (ENOENT ''/docs/tour/hello.md'')
   \<and> console_error (run demo_site_env (demo_world
      [(''/docs/_index.yaml'', ''sections: [tour, guide]''),
       (''/docs/tour/_index.yaml'', ''section: Tour''),
       (''/docs/tour/welcome.md'', ''Title: Welcome'' @ [NL] @ ''<p>Hi</p>'')]))
     = [''Error: ENOENT: /docs/tour/hello.md'']
   \<and> console_error (run demo_site_env (demo_world [(''/docs/_index.yaml'', ''sections: [tour'')]))
     = [''YAMLException: sections: [tour'']
   \<and> console_error (run demo_site_env (demo_world
      [(''/docs/_index.yaml'', ''sections: [tour, guide]''),
       (''/docs/tour/_index.yaml'', ''section: Tour''),
       (''/docs/tour/welcome.md'',
        ''Title: Welcome'' @ [NL] @ ''```ruby'' @ [NL] @ ''puts 1'' @ [NL] @ ''```'')]))
     = [''Error: Cannot highlight ruby'' @ [NL]
          @ ''Please report this to https://github.com/chjj/marked.'']
   \<and> console_error (run demo_readonly_env demo_site) = [''Error: EACCES: /dist/tour/welcome.json'']"
proof -
  let ?E = demo_site_env
  let ?root = "\<lparr>y_sections = Some [''tour'', ''guide''], y_section = Undefined,
                y_description = Undefined, y_subsections = None\<rparr>"
  let ?tour = "\<lparr>y_sections = None, y_section = Str ''Tour'',
                y_description = Str '' A tour '', y_subsections = Some [''welcome'', ''hello'']\<rparr>"
  have y: "yaml_load ?E ''sections: [tour, guide]'' = Inr ?root"
    and y1: "yaml_load ?E ''section: Tour'' = Inr ?tour"
    by (simp_all add: demo_site_env_def demo_env_def demo_yaml_def)
  have se: "y_sections ?root = Some ([] @ ''tour'' # [''guide''])"
    and de: "y_description ?tour = Str '' A tour ''"
    by simp_all
  have a: "fst (main ?E (demo_world
      [(''/docs/_index.yaml'', ''sections: [tour, guide]''),
       (''/docs/tour/_index.yaml'', ''section: Tour''),
       (''/docs/tour/welcome.md'', ''Title: Welcome'' @ [NL] @ ''<p>Hi</p>'')]))
     = Inl (ENOENT ''/docs/tour/hello.md'')
   \<and> console_error (run ?E (demo_world
      [(''/docs/_index.yaml'', ''sections: [tour, guide]''),
       (''/docs/tour/_index.yaml'', ''section: Tour''),
       (''/docs/tour/welcome.md'', ''Title: Welcome'' @ [NL] @ ''<p>Hi</p>'')]))
     = [''Error: ENOENT: /docs/tour/hello.md'']"
  proof -
    let ?w = "demo_world
      [(''/docs/_index.yaml'', ''sections: [tour, guide]''),
       (''/docs/tour/_index.yaml'', ''section: Tour''),
       (''/docs/tour/welcome.md'', ''Title: Welcome'' @ [NL] @ ''<p>Hi</p>'')]"
    let ?wa = "?w\<lparr>made := made ?w @ [''/dist'']\<rparr>"
    let ?wb = "?wa\<lparr>made := made ?wa @ [''/dist/tour'']\<rparr>"
    let ?r = "subsections_loop ?E ''tour'' [''welcome''] [] ?wb"
    have mk: "mkdirs ?E (dirDist ?E) ?w = Inr ?wa"
      by (simp add: mkdirs_def demo_site_env_def demo_env_def)
    have rd: "readFile ?wa (resolve ?E (dirDocs ?E) ''_index.yaml'') = Inr ''sections: [tour, guide]''"
      by (simp add: demo_defs)
    have l0: "sections_loop ?E [] [] ?wa = (Inr [], ?wa)"
      by simp
    have rd1: "readFile ?wa (sectionIndex ?E ''tour'') = Inr ''section: Tour''"
      by (simp add: demo_defs)
    have mk1: "mkdirs ?E (resolve ?E (dirDist ?E) ''tour'') ?wa = Inr ?wb"
      by (simp add: mkdirs_def demo_site_env_def demo_env_def)
    have su: "y_subsections ?tour = Some ([''welcome''] @ ''hello'' # [])"
      by simp
    have l1: "?r = (Inr (projr (fst ?r)), snd ?r)"
      by (simp add: demo_defs demo_headers demo_build)
    have "readFile (snd ?r) (srcFile ?E ''tour'' ''hello'') = Inl (ENOENT ''/docs/tour/hello.md'')"
      by (simp add: demo_defs demo_headers demo_build)
    then have dr: "document_raises ?E ''tour'' ''hello'' (snd ?r) (ENOENT ''/docs/tour/hello.md'')"
      by (rule document_raises.source_unreadable)
    have sr: "section_raises ?E ''tour'' ?wa (ENOENT ''/docs/tour/hello.md'')"
      by (rule section_raises.document_fails [OF rd1 y1 de mk1 su l1 dr])
    have br: "build_raises ?E ?w (ENOENT ''/docs/tour/hello.md'')"
      by (rule build_raises.section_fails [OF mk rd y se l0 sr])
    from errors_reach_console [OF br] obtain w'
      where "main ?E ?w = (Inl (ENOENT ''/docs/tour/hello.md''), w')"
        and "run ?E ?w = w'\<lparr>console_error :=
               console_error ?w @ [stack ?E (ENOENT ''/docs/tour/hello.md'')]\<rparr>"
      by blast
    then show ?thesis
      by (simp add: demo_site_env_def demo_env_def demo_world_def demo_stack_def)
  qed
  have b: "console_error (run ?E (demo_world [(''/docs/_index.yaml'', ''sections: [tour'')]))
     = [''YAMLException: sections: [tour'']"
  proof -
    let ?w = "demo_world [(''/docs/_index.yaml'', ''sections: [tour'')]"
    let ?wa = "?w\<lparr>made := made ?w @ [''/dist'']\<rparr>"
    have mk: "mkdirs ?E (dirDist ?E) ?w = Inr ?wa"
      by (simp add: mkdirs_def demo_site_env_def demo_env_def)
    have rd: "readFile ?wa (resolve ?E (dirDocs ?E) ''_index.yaml'') = Inr ''sections: [tour''"
      by (simp add: demo_defs)
    have yl: "yaml_load ?E ''sections: [tour'' = Inl (YAMLException ''sections: [tour'')"
      by (simp add: demo_site_env_def demo_env_def demo_yaml_def)
    have br: "build_raises ?E ?w (YAMLException ''sections: [tour'')"
      by (rule build_raises.root_malformed [OF mk rd yl])
    from errors_reach_console [OF br] obtain w'
      where "run ?E ?w = w'\<lparr>console_error :=
               console_error ?w @ [stack ?E (YAMLException ''sections: [tour'')]\<rparr>"
      by blast
    then show ?thesis
      by (simp add: demo_site_env_def demo_env_def demo_world_def demo_stack_def)
  qed
  have c: "console_error (run ?E (demo_world
      [(''/docs/_index.yaml'', ''sections: [tour, guide]''),
       (''/docs/tour/_index.yaml'', ''section: Tour''),
       (''/docs/tour/welcome.md'',
        ''Title: Welcome'' @ [NL] @ ''```ruby'' @ [NL] @ ''puts 1'' @ [NL] @ ''```'')]))
     = [''Error: Cannot highlight ruby'' @ [NL]
          @ ''Please report this to https://github.com/chjj/marked.'']"
  proof -
    let ?doc = "''Title: Welcome'' @ [NL] @ ''```ruby'' @ [NL] @ ''puts 1'' @ [NL] @ ''```''"
    let ?w = "demo_world
      [(''/docs/_index.yaml'', ''sections: [tour, guide]''),
       (''/docs/tour/_index.yaml'', ''section: Tour''),
       (''/docs/tour/welcome.md'', ?doc)]"
    let ?wa = "?w\<lparr>made := made ?w @ [''/dist'']\<rparr>"
    let ?wb = "?wa\<lparr>made := made ?wa @ [''/dist/tour'']\<rparr>"
    let ?e = "Error (''Cannot highlight ruby'' @ [NL]
                @ ''Please report this to https://github.com/chjj/marked.'')"
    have mk: "mkdirs ?E (dirDist ?E) ?w = Inr ?wa"
      by (simp add: mkdirs_def demo_site_env_def demo_env_def)
    have rd: "readFile ?wa (resolve ?E (dirDocs ?E) ''_index.yaml'') = Inr ''sections: [tour, guide]''"
      by (simp add: demo_defs)
    have l0: "sections_loop ?E [] [] ?wa = (Inr [], ?wa)"
      by simp
    have rd1: "readFile ?wa (sectionIndex ?E ''tour'') = Inr ''section: Tour''"
      by (simp add: demo_defs)
    have mk1: "mkdirs ?E (resolve ?E (dirDist ?E) ''tour'') ?wa = Inr ?wb"
      by (simp add: mkdirs_def demo_site_env_def demo_env_def)
    have su: "y_subsections ?tour = Some ([] @ ''welcome'' # [''hello''])"
      by simp
    have l1: "subsections_loop ?E ''tour'' [] [] ?wb = (Inr [], ?wb)"
      by simp
    have rdoc: "readFile ?wb (srcFile ?E ''tour'' ''welcome'') = Inr ?doc"
      by (simp add: demo_defs)
    have cm: "compileMarkdown ?E (markdown_of ?doc) = Inl ?e"
      by (simp add: markdown_of_def demo_defs demo_build marked_note_def)
    have dr: "document_raises ?E ''tour'' ''welcome'' ?wb ?e"
      by (rule document_raises.markdown_fails [OF rdoc cm])
    have sr: "section_raises ?E ''tour'' ?wa ?e"
      by (rule section_raises.document_fails [OF rd1 y1 de mk1 su l1 dr])
    have br: "build_raises ?E ?w ?e"
      by (rule build_raises.section_fails [OF mk rd y se l0 sr])
    from errors_reach_console [OF br] obtain w'
      where "run ?E ?w = w'\<lparr>console_error := console_error ?w @ [stack ?E ?e]\<rparr>"
      by blast
    then show ?thesis
      by (simp add: demo_site_env_def demo_env_def demo_world_def demo_stack_def)
  qed
  have d: "console_error (run demo_readonly_env demo_site)
             = [''Error: EACCES: /dist/tour/welcome.json'']"
  proof -
    let ?R = demo_readonly_env
    let ?w = demo_site
    let ?wa = "?w\<lparr>made := made ?w @ [''/dist'']\<rparr>"
    let ?wb = "?wa\<lparr>made := made ?wa @ [''/dist/tour'']\<rparr>"
    let ?d = "\<lparr>html = ''<p>Hi</p>'', examples = [], headers = [(''title'', Str ''Welcome'')]\<rparr>"
    let ?e = "Error ''EACCES: /dist/tour/welcome.json''"
    have yr: "yaml_load ?R ''sections: [tour, guide]'' = Inr ?root"
      and yt: "yaml_load ?R ''section: Tour'' = Inr ?tour"
      by (simp_all add: demo_readonly_env_def demo_site_env_def demo_env_def demo_yaml_def)
    have mk: "mkdirs ?R (dirDist ?R) ?w = Inr ?wa"
      by (simp add: mkdirs_def demo_readonly_env_def demo_site_env_def demo_env_def)
    have rd: "readFile ?wa (resolve ?R (dirDocs ?R) ''_index.yaml'') = Inr ''sections: [tour, guide]''"
      by (simp add: demo_readonly_env_def demo_defs)
    have l0: "sections_loop ?R [] [] ?wa = (Inr [], ?wa)"
      by simp
    have rd1: "readFile ?wa (sectionIndex ?R ''tour'') = Inr ''section: Tour''"
      by (simp add: demo_readonly_env_def demo_defs)
    have mk1: "mkdirs ?R (resolve ?R (dirDist ?R) ''tour'') ?wa = Inr ?wb"
      by (simp add: mkdirs_def demo_readonly_env_def demo_site_env_def demo_env_def)
    have su: "y_subsections ?tour = Some ([] @ ''welcome'' # [''hello''])"
      by simp
    have l1: "subsections_loop ?R ''tour'' [] [] ?wb = (Inr [], ?wb)"
      by simp
    have p: "parse ?R ?wb (srcFile ?R ''tour'' ''welcome'') = Inr ?d"
      by (simp add: demo_readonly_env_def demo_defs demo_headers)
    have wf: "writeFile ?R (distFile ?R ''tour'' ''welcome'') (stringify ?R (document_json ?d)) ?wb
                = Inl ?e"
      by (simp add: writeFile_def distFile_def demo_readonly_env_def demo_site_env_def demo_env_def)
    have dr: "document_raises ?R ''tour'' ''welcome'' ?wb ?e"
      by (rule document_raises.document_unwritable [OF p wf])
    have sr: "section_raises ?R ''tour'' ?wa ?e"
      by (rule section_raises.document_fails [OF rd1 yt de mk1 su l1 dr])
    have br: "build_raises ?R ?w ?e"
      by (rule build_raises.section_fails [OF mk rd yr se l0 sr])
    from errors_reach_console [OF br] obtain w'
      where "run ?R ?w = w'\<lparr>console_error := console_error ?w @ [stack ?R ?e]\<rparr>"
      by blast
    then show ?thesis
      by (simp add: demo_readonly_env_def demo_site_env_def demo_env_def demo_site_def
          demo_world_def demo_stack_def)
  qed
  from a b c d show ?thesis by simp
qed

end
